theory Spec2Isabelle
  imports Main
begin

section \<open>Subtitle context window (\<open>surroundingSubtitles\<close>, \<open>atBoundary\<close>)\<close>

text \<open>
  JavaScript values that the code distinguishes: an array read out of range yields
  \<open>undefined\<close>, the code itself produces \<open>null\<close>, and reading a property of either
  raises a \<open>TypeError\<close>. Subtitle timestamps, indices and radii are modelled as integers
  (milliseconds and counts); a subtitle is an extensible record, so every further field
  of the source's subtitle objects is carried along unchanged.
\<close>

datatype js_error = TypeError

datatype 'a js_ref = Null | Undefined | Obj 'a

record subtitle =
  start :: int

definition subscript :: "'a list \<Rightarrow> int \<Rightarrow> 'a js_ref" where
  \<comment> \<open>\<open>xs[i]\<close>: \<open>undefined\<close> outside \<open>0 .. length - 1\<close>.\<close>
  "subscript xs i = (if 0 \<le> i \<and> i < int (length xs) then Obj (xs ! nat i) else Undefined)"

definition atBoundary ::
  "'a subtitle_scheme list \<Rightarrow> int \<Rightarrow> int \<Rightarrow> int \<Rightarrow> int \<Rightarrow> bool \<Rightarrow> js_error + bool" where
  "atBoundary subtitles index initialIndex countRadius timeRadius sign =
     (let next =
        (if sign
         then (if index + 1 < int (length subtitles) then subscript subtitles (index + 1) else Null)
         else (if index - 1 \<ge> 0 then subscript subtitles (index - 1) else Null))
      in if \<not> (abs (initialIndex - index) \<ge> countRadius) then Inr False
         else (case next of
                 Null \<Rightarrow> Inr True
               | Undefined \<Rightarrow> Inl TypeError
               | Obj n \<Rightarrow>
                   (case subscript subtitles initialIndex of
                      Obj s \<Rightarrow> Inr (abs (start n - start s) \<ge> timeRadius)
                    | _ \<Rightarrow> Inl TypeError)))"

text \<open>
  The first loop, \<open>for (let i = index; i >= 0; --i)\<close>. The last argument is the current
  value of the variable \<open>startIndex\<close> (\<open>None\<close> while it is still \<open>undefined\<close>).
\<close>

function startLoop ::
  "'a subtitle_scheme list \<Rightarrow> int \<Rightarrow> int \<Rightarrow> int \<Rightarrow> int \<Rightarrow> int option \<Rightarrow> js_error + int option" where
  "startLoop subtitles index countRadius timeRadius i startIndex =
     (if i \<ge> 0
      then (case atBoundary subtitles i index countRadius timeRadius False of
              Inl e \<Rightarrow> Inl e
            | Inr True \<Rightarrow> Inr (Some i)
            | Inr False \<Rightarrow> startLoop subtitles index countRadius timeRadius (i - 1) (Some i))
      else Inr startIndex)"
  by pat_completeness auto
termination
  by (relation "measure (\<lambda>(subtitles, index, countRadius, timeRadius, i, startIndex). nat (i + 1))") auto

text \<open>The second loop, \<open>for (let i = index; i <= subtitles.length - 1; ++i)\<close>.\<close>

function endLoop ::
  "'a subtitle_scheme list \<Rightarrow> int \<Rightarrow> int \<Rightarrow> int \<Rightarrow> int \<Rightarrow> int option \<Rightarrow> js_error + int option" where
  "endLoop subtitles index countRadius timeRadius i endIndex =
     (if i \<le> int (length subtitles) - 1
      then (case atBoundary subtitles i index countRadius timeRadius True of
              Inl e \<Rightarrow> Inl e
            | Inr True \<Rightarrow> Inr (Some i)
            | Inr False \<Rightarrow> endLoop subtitles index countRadius timeRadius (i + 1) (Some i))
      else Inr endIndex)"
  by pat_completeness auto
termination
  by (relation "measure (\<lambda>(subtitles, index, countRadius, timeRadius, i, endIndex).
        nat (int (length subtitles) - i))") auto

definition slice :: "'a list \<Rightarrow> int option \<Rightarrow> int option \<Rightarrow> 'a list" where
  \<comment> \<open>\<open>Array.prototype.slice(start, end)\<close> with both arguments passed. \<open>None\<close> is an
      argument that converts to the integer 0 (\<open>undefined\<close> as start, \<open>NaN\<close> as end);
      a negative argument counts from the end of the array.\<close>
  "slice xs begin_arg end_arg =
     (let len = int (length xs);
          relativeStart = (case begin_arg of None \<Rightarrow> 0 | Some v \<Rightarrow> v);
          k = (if relativeStart < 0 then max (len + relativeStart) 0 else min relativeStart len);
          relativeEnd = (case end_arg of None \<Rightarrow> 0 | Some v \<Rightarrow> v);
          final = (if relativeEnd < 0 then max (len + relativeEnd) 0 else min relativeEnd len)
      in take (nat (final - k)) (drop (nat k) xs))"

definition surroundingSubtitles ::
  "'a subtitle_scheme list \<Rightarrow> int \<Rightarrow> int \<Rightarrow> int \<Rightarrow> js_error + 'a subtitle_scheme list" where
  "surroundingSubtitles subtitles index countRadius timeRadius =
     (case startLoop subtitles index countRadius timeRadius index None of
        Inl e \<Rightarrow> Inl e
      | Inr startIndex \<Rightarrow>
          (case endLoop subtitles index countRadius timeRadius index None of
             Inl e \<Rightarrow> Inl e
           | Inr endIndex \<Rightarrow>
               Inr (slice subtitles startIndex (map_option (\<lambda>e. e + 1) endIndex))))"

section \<open>The content script (\<open>extension/src/video.ts\<close>)\<close>

subsection \<open>The document: video elements and their sources\<close>

text \<open>
  A DOM node is known by its identity (\<open>isSameNode\<close>), a natural number here. A document
  is the list \<open>document.getElementsByTagName('video')\<close> returns at the moment of a
  discovery tick, each element with the attributes it has at that moment. A string is
  truthy when it is not empty; a child element that has no \<open>src\<close> property reads as
  \<open>undefined\<close> (\<open>None\<close>).
\<close>

record child_element =
  tagName :: string
  child_src :: "string option"

record video_element =
  node :: nat
  src :: string
  children :: "child_element list"

fun truthy :: "string option \<Rightarrow> bool" where
  "truthy None = False"
| "truthy (Some s) = (s \<noteq> [])"

fun sourceLoop :: "child_element list \<Rightarrow> bool" where
  \<comment> \<open>The \<open>for\<close> loop over \<open>videoElement.children\<close>, leaving at the first hit.\<close>
  "sourceLoop [] = False"
| "sourceLoop (elm # rest) =
     (if ''SOURCE'' = tagName elm \<and> truthy (child_src elm) then True else sourceLoop rest)"

definition hasValidVideoSource :: "video_element \<Rightarrow> bool" where
  "hasValidVideoSource videoElement =
     (if src videoElement \<noteq> [] then True else sourceLoop (children videoElement))"

subsection \<open>Collaborators the content script holds\<close>

text \<open>
  The classes and functions that \<open>video.ts\<close> imports are not among the sources. What the
  content script does with them is kept: the arguments it passes, the calls it makes (in
  \<open>calls\<close>, in order) and the state it reads back. The video select controller and the
  construction of the Anki UI controller take no part in what follows and are left out.
\<close>

record page_delegate =
  shouldIgnore :: "video_element \<Rightarrow> bool"

definition pageShouldIgnore :: "page_delegate option \<Rightarrow> video_element \<Rightarrow> bool" where
  \<comment> \<open>\<open>page?.shouldIgnore(videoElement)\<close>: \<open>undefined\<close>, so falsy, without a page delegate.\<close>
  "pageShouldIgnore page videoElement =
     (case page of None \<Rightarrow> False | Some p \<Rightarrow> shouldIgnore p videoElement)"

text \<open>
  A \<open>Binding\<close> object: the arguments of its constructor, and \<open>oid\<close>, the identity of the
  object itself (two Bindings made for the same node at different times are different
  objects).
\<close>

record binding =
  video :: nat
  syncAvailable :: bool
  bindingFrameId :: "string option"
  oid :: nat

text \<open>
  Numbers are of any type \<open>'n\<close> that has an addition. The fields of a rect are those of
  the source, except that \<open>top\<close> is written \<open>top_px\<close> (\<open>top\<close> is the greatest element of
  an order in HOL). Rect objects live in a store, the list \<open>heap\<close> of the page context; a
  reference to one is its position in the list, and a new object is put at the end.
\<close>

record 'n rect =
  left :: 'n
  top_px :: 'n
  width :: 'n
  height :: 'n

record 'n iframe =
  boundingClientRect :: "'n rect"

record 'n frame_info_listener =
  iframesById :: "(string \<Rightarrow> 'n iframe option) option"
  listening :: bool

record frame_info_broadcaster =
  broadcasterFrameId :: string
  broadcasting :: bool

definition broadcaster_bind :: "frame_info_broadcaster \<Rightarrow> frame_info_broadcaster" where
  \<comment> \<open>Modelled from the spec: \<open>FrameInfoBroadcaster.bind\<close> is not among the sources; it
      ensures that the broadcaster is started.\<close>
  "broadcaster_bind fb = fb\<lparr>broadcasting := True\<rparr>"

definition broadcaster_unbind :: "frame_info_broadcaster \<Rightarrow> frame_info_broadcaster" where
  \<comment> \<open>Modelled from the spec: \<open>FrameInfoBroadcaster.unbind\<close> is not among the sources; it
      stops the broadcaster.\<close>
  "broadcaster_unbind fb = fb\<lparr>broadcasting := False\<rparr>"

subsection \<open>Messages\<close>

text \<open>
  A message has the fields of all message kinds the router reads; a kind ignores the
  fields it does not have. Its \<open>rect\<close> is a reference into the store. The field \<open>src\<close>
  of a request is written \<open>request_src\<close>, since \<open>src\<close> is the one of a video element.
  The calls the content script makes to its collaborators are recorded in order; a
  Binding and a key handler are known by a number.
\<close>

record 'n message =
  command :: string
  dataUrl :: string
  rect :: nat
  maxWidth :: 'n
  maxHeight :: 'n
  frameId :: "string option"

record 'n request =
  sender :: "string option"
  message :: "'n message"
  request_src :: "string option"

datatype 'n call =
    BindingBind nat
  | BindingUnbind nat
  | ToggleBind nat
  | ToggleUnbind nat
  | ToggleSidePanelSent nat
  | AnkiShow "'n message"
  | AnkiUpdateSettings
  | CropAndResize 'n 'n nat string

text \<open>
  What the environment answers: the promise of \<open>fetch\<close>, of \<open>response.blob()\<close>, of
  \<open>navigator.clipboard.write\<close> and of the image transform each settle to a value or to a
  rejection with a reason, or stay pending for ever. The expression
  \<open>navigator.clipboard.write([new ClipboardItem(...)])\<close> can also throw before it returns
  any promise (\<open>navigator.clipboard\<close> is \<open>undefined\<close> on a page that is not secure, or
  the \<open>ClipboardItem\<close> cannot be made): that is \<open>Inl\<close> with the error.
\<close>

datatype 'a settled = Fulfilled 'a | Rejected string | Pending

record blob =
  blob_type :: string
  bytes :: string

datatype response = Response "blob settled"

record 'n environment =
  fetch :: "string \<Rightarrow> response settled"
  clipboardWrite :: "(string \<times> blob) list \<Rightarrow> string + unit settled"
  cropAndResize :: "'n \<Rightarrow> 'n \<Rightarrow> 'n rect option \<Rightarrow> string \<Rightarrow> string settled"

record ('n, 'k) page_context =
  bindings :: "binding list"
  page :: "page_delegate option"
  subSyncAvailable :: bool
  frameInfoListener :: "'n frame_info_listener option"
  frameInfoBroadcaster :: "frame_info_broadcaster option"
  isParentDocument :: bool
  videoInterval :: bool
  listenerAdded :: bool
  unbindToggleSidePanel :: "nat option"
  keyHandlers :: "(nat \<times> 'k) list"
  pendingKeyBindSetReads :: nat
  nextHandler :: nat
  nextBinding :: nat
  heap :: "'n rect list"
  calls :: "'n call list"
  console :: "string list"
  unhandledRejections :: "string list"
  clipboard :: "(string \<times> blob) list list"
  sentResponses :: "string list"

subsection \<open>The side-panel key binding (\<open>bindToggleSidePanel\<close>)\<close>

text \<open>
  \<open>settingsProvider.getSingle('keyBindSet')\<close> returns a promise; \<open>bindToggleSidePanel\<close>
  only registers the callback, so it leaves one more read pending. The callback runs
  later, as a turn of its own, with the key bind set that was read.
\<close>

definition bindToggleSidePanel :: "('n, 'k) page_context \<Rightarrow> ('n, 'k) page_context" where
  "bindToggleSidePanel c = c\<lparr>pendingKeyBindSetReads := Suc (pendingKeyBindSetReads c)\<rparr>"

definition keyBinder_unbind :: "nat \<Rightarrow> ('n, 'k) page_context \<Rightarrow> ('n, 'k) page_context" where
  \<comment> \<open>Modelled from the spec: the function that \<open>DefaultKeyBinder.bindToggleSidePanel\<close>
      returns is not among the sources; it releases the handler that this call installed,
      and calling it again changes nothing.\<close>
  "keyBinder_unbind h c =
     c\<lparr>keyHandlers := filter (\<lambda>(h', ks). h' \<noteq> h) (keyHandlers c),
       calls := calls c @ [ToggleUnbind h]\<rparr>"

definition keyBinder_bindToggleSidePanel ::
  "'k \<Rightarrow> ('n, 'k) page_context \<Rightarrow> nat \<times> ('n, 'k) page_context" where
  \<comment> \<open>Modelled from the spec: \<open>DefaultKeyBinder.bindToggleSidePanel\<close> is not among the
      sources; it installs one new handler for the key bind set and returns the function
      that releases it, known here by the number of the handler.\<close>
  "keyBinder_bindToggleSidePanel keyBindSet c =
     (nextHandler c,
      c\<lparr>keyHandlers := keyHandlers c @ [(nextHandler c, keyBindSet)],
        nextHandler := Suc (nextHandler c),
        calls := calls c @ [ToggleBind (nextHandler c)]\<rparr>)"

definition callUnbindToggleSidePanel :: "('n, 'k) page_context \<Rightarrow> ('n, 'k) page_context" where
  \<comment> \<open>\<open>unbindToggleSidePanel?.()\<close>\<close>
  "callUnbindToggleSidePanel c =
     (case unbindToggleSidePanel c of
        None \<Rightarrow> c
      | Some h \<Rightarrow> keyBinder_unbind h c)"

definition keyBindSetRead :: "'k \<Rightarrow> ('n, 'k) page_context \<Rightarrow> ('n, 'k) page_context" where
  \<comment> \<open>The callback of \<open>getSingle('keyBindSet').then\<close> (lines 24 to 40).\<close>
  "keyBindSetRead keyBindSet c =
     (let c1 = callUnbindToggleSidePanel c;
          (h, c2) = keyBinder_bindToggleSidePanel keyBindSet c1
      in c2\<lparr>unbindToggleSidePanel := Some h\<rparr>)"

definition keyPressed :: "('n, 'k) page_context \<Rightarrow> ('n, 'k) page_context" where
  \<comment> \<open>The bound key is pressed: every installed handler sends \<open>toggle-side-panel\<close>.\<close>
  "keyPressed c = c\<lparr>calls := calls c @ map (\<lambda>(h, ks). ToggleSidePanelSent h) (keyHandlers c)\<rparr>"

subsection \<open>The discovery loop (\<open>bindToVideoElements\<close>)\<close>

fun addLoop :: "video_element list \<Rightarrow> ('n, 'k) page_context \<Rightarrow> ('n, 'k) page_context" where
  \<comment> \<open>The first loop, over the video elements in document order.\<close>
  "addLoop [] c = c"
| "addLoop (videoElement # rest) c =
     (let bindingExists = (length (filter (\<lambda>b. video b = node videoElement) (bindings c)) > 0)
      in addLoop rest
           (if \<not> bindingExists \<and> hasValidVideoSource videoElement
                 \<and> \<not> pageShouldIgnore (page c) videoElement
            then (let b = \<lparr>video = node videoElement,
                            syncAvailable = subSyncAvailable c,
                            bindingFrameId = map_option broadcasterFrameId (frameInfoBroadcaster c),
                            oid = nextBinding c\<rparr>
                  in c\<lparr>nextBinding := Suc (nextBinding c),
                       calls := calls c @ [BindingBind (oid b)],
                       bindings := bindings c @ [b]\<rparr>)
            else c))"

fun videoElementExists :: "video_element list \<Rightarrow> binding \<Rightarrow> bool" where
  \<comment> \<open>The inner loop over the video elements, leaving at the first hit.\<close>
  "videoElementExists [] b = False"
| "videoElementExists (videoElement # rest) b =
     (if node videoElement = video b \<and> hasValidVideoSource videoElement then True
      else videoElementExists rest b)"

fun removeLoop ::
  "video_element list \<Rightarrow> nat \<Rightarrow> ('n, 'k) page_context \<Rightarrow> ('n, 'k) page_context" where
  \<comment> \<open>The second loop, \<open>for (let i = bindings.length - 1; i >= 0; --i)\<close>. The counter of
      the model is \<open>i + 1\<close>: \<open>0\<close> when the loop is over, \<open>Suc i\<close> when index \<open>i\<close> is next.
      \<open>bindings.splice(i, 1)\<close> removes the entry at index \<open>i\<close>.\<close>
  "removeLoop videoElements 0 c = c"
| "removeLoop videoElements (Suc i) c =
     (let b = bindings c ! i
      in removeLoop videoElements i
           (if \<not> videoElementExists videoElements b
            then c\<lparr>bindings := take i (bindings c) @ drop (Suc i) (bindings c),
                   calls := calls c @ [BindingUnbind (oid b)]\<rparr>
            else c))"

definition bindToVideoElements ::
  "video_element list \<Rightarrow> ('n, 'k) page_context \<Rightarrow> ('n, 'k) page_context" where
  "bindToVideoElements videoElements c =
     (let c1 = addLoop videoElements c;
          c2 = removeLoop videoElements (length (bindings c1)) c1
      in if length (bindings c2) = 0
         then c2\<lparr>frameInfoBroadcaster := map_option broadcaster_unbind (frameInfoBroadcaster c2)\<rparr>
         else c2\<lparr>frameInfoBroadcaster := map_option broadcaster_bind (frameInfoBroadcaster c2)\<rparr>)"

subsection \<open>Setting up the page context (\<open>bind\<close>) and tearing it down\<close>

definition initialContext ::
  "bool \<Rightarrow> page_delegate option \<Rightarrow> string \<Rightarrow> ('n, 'k) page_context" where
  \<comment> \<open>The variables \<open>bind()\<close> declares before its first discovery pass (lines 61 to 75),
      the module variable \<open>unbindToggleSidePanel\<close> (still \<open>undefined\<close>), and an untouched
      environment. The listener starts bound, with an empty registry.\<close>
  "initialContext isParent currentPageDelegate newFrameId =
     \<lparr>bindings = [],
      page = currentPageDelegate,
      subSyncAvailable = (currentPageDelegate \<noteq> None),
      frameInfoListener =
        (if isParent then Some \<lparr>iframesById = Some (\<lambda>id. None), listening = True\<rparr> else None),
      frameInfoBroadcaster =
        (if isParent then None
         else Some \<lparr>broadcasterFrameId = newFrameId, broadcasting = False\<rparr>),
      isParentDocument = isParent,
      videoInterval = False,
      listenerAdded = False,
      unbindToggleSidePanel = None,
      keyHandlers = [],
      pendingKeyBindSetReads = 0,
      nextHandler = 0,
      nextBinding = 0,
      heap = [],
      calls = [],
      console = [],
      unhandledRejections = [],
      clipboard = [],
      sentResponses = []\<rparr>"

definition bind ::
  "bool \<Rightarrow> page_delegate option \<Rightarrow> string \<Rightarrow> video_element list \<Rightarrow> ('n, 'k) page_context" where
  \<comment> \<open>\<open>bind()\<close>, in a document that is the top window or not, with the page delegate
      \<open>currentPageDelegate()\<close> returns, the frame id a new broadcaster draws, and the
      video elements of the document at that moment.\<close>
  "bind isParent currentPageDelegate newFrameId videoElements =
     (let c0 = initialContext isParent currentPageDelegate newFrameId;
          c1 = bindToVideoElements videoElements c0;
          c2 = c1\<lparr>videoInterval := True\<rparr>;
          c3 = (if isParent then bindToggleSidePanel c2 else c2)
      in c3\<lparr>listenerAdded := True\<rparr>)"

definition beforeunload :: "('n, 'k) page_context \<Rightarrow> ('n, 'k) page_context" where
  "beforeunload c =
     (let c1 = c\<lparr>calls := calls c @ map (\<lambda>b. BindingUnbind (oid b)) (bindings c)\<rparr>;
          c2 = c1\<lparr>bindings := []\<rparr>;
          c3 = c2\<lparr>videoInterval := False\<rparr>;
          c4 = c3\<lparr>frameInfoListener := map_option (\<lambda>l. l\<lparr>listening := False\<rparr>) (frameInfoListener c3)\<rparr>;
          c5 = c4\<lparr>frameInfoBroadcaster := map_option broadcaster_unbind (frameInfoBroadcaster c4)\<rparr>;
          c6 = callUnbindToggleSidePanel c5
      in c6\<lparr>listenerAdded := False\<rparr>)"

subsection \<open>Promises\<close>

text \<open>
  A promise is modelled by what it settles to (or \<open>Pending\<close>, when it never settles)
  together with what its callbacks do to the page context. The continuations of the two
  chains below touch only the console, the clipboard and the response, so they are run
  to their end within the step that starts them. \<open>floating\<close> is a promise whose result
  nothing handles: its rejection is an unhandled rejection.
\<close>

type_synonym ('a, 'n, 'k) promise = "('n, 'k) page_context \<Rightarrow> 'a settled \<times> ('n, 'k) page_context"

definition thenP :: "('a, 'n, 'k) promise \<Rightarrow> ('a \<Rightarrow> ('b, 'n, 'k) promise) \<Rightarrow> ('b, 'n, 'k) promise" where
  "thenP p onFulfilled c =
     (case p c of
        (Fulfilled x, c') \<Rightarrow> onFulfilled x c'
      | (Rejected e, c') \<Rightarrow> (Rejected e, c')
      | (Pending, c') \<Rightarrow> (Pending, c'))"

definition catchP :: "('a, 'n, 'k) promise \<Rightarrow> (string \<Rightarrow> ('a, 'n, 'k) promise) \<Rightarrow> ('a, 'n, 'k) promise" where
  "catchP p onRejected c =
     (case p c of
        (Rejected e, c') \<Rightarrow> onRejected e c'
      | (Fulfilled x, c') \<Rightarrow> (Fulfilled x, c')
      | (Pending, c') \<Rightarrow> (Pending, c'))"

definition floating :: "('a, 'n, 'k) promise \<Rightarrow> ('n, 'k) page_context \<Rightarrow> ('n, 'k) page_context" where
  "floating p c =
     (case p c of
        (Rejected e, c') \<Rightarrow> c'\<lparr>unhandledRejections := unhandledRejections c' @ [e]\<rparr>
      | (Fulfilled x, c') \<Rightarrow> c'
      | (Pending, c') \<Rightarrow> c')"

definition fetchP :: "'n environment \<Rightarrow> string \<Rightarrow> (response, 'n, 'k) promise" where
  "fetchP env url c = (fetch env url, c)"

definition blobP :: "response \<Rightarrow> (blob, 'n, 'k) promise" where
  \<comment> \<open>\<open>response.blob()\<close>\<close>
  "blobP response c = (case response of Response body \<Rightarrow> (body, c))"

definition throwingCall ::
  "string + 'x \<Rightarrow> ('x \<Rightarrow> ('a, 'n, 'k) promise) \<Rightarrow> ('a, 'n, 'k) promise" where
  \<comment> \<open>A call inside a \<open>then\<close> callback that may throw before the callback has anything
      to return: the promise that \<open>then\<close> gave is rejected with the error, and what the
      callback would have done with the result of the call never happens.\<close>
  "throwingCall r continue c = (case r of Inl e \<Rightarrow> (Rejected e, c) | Inr x \<Rightarrow> continue x c)"

definition clipboardWriteP :: "unit settled \<Rightarrow> (string \<times> blob) list \<Rightarrow> (unit, 'n, 'k) promise" where
  \<comment> \<open>The promise \<open>navigator.clipboard.write(items)\<close> returned, once it did return one.\<close>
  "clipboardWriteP written items c =
     (case written of
        Fulfilled u \<Rightarrow> (Fulfilled u, c\<lparr>clipboard := clipboard c @ [items]\<rparr>)
      | Rejected e \<Rightarrow> (Rejected e, c)
      | Pending \<Rightarrow> (Pending, c))"

definition consoleError :: "string \<Rightarrow> (unit, 'n, 'k) promise" where
  "consoleError e c = (Fulfilled (), c\<lparr>console := console c @ [e]\<rparr>)"

definition deref :: "'a list \<Rightarrow> nat \<Rightarrow> 'a option" where
  \<comment> \<open>The object a reference points to; a reference to nothing is \<open>undefined\<close>.\<close>
  "deref h a = (if a < length h then Some (h ! a) else None)"

definition cropAndResizeP ::
  "'n environment \<Rightarrow> 'n \<Rightarrow> 'n \<Rightarrow> nat \<Rightarrow> string \<Rightarrow> (string, 'n, 'k) promise" where
  \<comment> \<open>The call of the image transform, which is not among the sources: the call is
      recorded with the reference it is given, and the result is the environment's.\<close>
  "cropAndResizeP env maxW maxH r url c =
     (cropAndResize env maxW maxH (deref (heap c) r) url,
      c\<lparr>calls := calls c @ [CropAndResize maxW maxH r url]\<rparr>)"

definition sendResponse :: "string \<Rightarrow> (unit, 'n, 'k) promise" where
  "sendResponse url c = (Fulfilled (), c\<lparr>sentResponses := sentResponses c @ [url]\<rparr>)"

subsection \<open>The command router (\<open>messageListener\<close>)\<close>

datatype listener_return = ReturnsUndefined | ReturnsTrue | Throws js_error

definition lookupIframe :: "('n, 'k) page_context \<Rightarrow> string \<Rightarrow> 'n iframe option" where
  \<comment> \<open>\<open>frameInfoListener?.iframesById?.[frameId]\<close>\<close>
  "lookupIframe c fid =
     (case frameInfoListener c of
        None \<Rightarrow> None
      | Some l \<Rightarrow> (case iframesById l of None \<Rightarrow> None | Some registry \<Rightarrow> registry fid))"

definition translateRect ::
  "'n::plus message \<Rightarrow> ('n, 'k) page_context \<Rightarrow> js_error + nat \<times> ('n, 'k) page_context" where
  \<comment> \<open>Lines 154 to 168: the value of the local variable \<open>rect\<close> (a reference) when the
      transform is called. The object literal is a new object, at the next free address.\<close>
  "translateRect m c =
     (case frameId m of
        None \<Rightarrow> Inr (rect m, c)
      | Some fid \<Rightarrow>
          (case lookupIframe c fid of
             None \<Rightarrow> Inr (rect m, c)
           | Some iframe \<Rightarrow>
               (let iframeRect = boundingClientRect iframe
                in case deref (heap c) (rect m) of
                     None \<Rightarrow> Inl TypeError
                   | Some r \<Rightarrow>
                       Inr (length (heap c),
                            c\<lparr>heap := heap c @ [\<lparr>left = left r + left iframeRect,
                                                  top_px = top_px r + top_px iframeRect,
                                                  width = width r,
                                                  height = height r\<rparr>]\<rparr>))))"

definition messageListener ::
  "'n::plus environment \<Rightarrow> 'n request \<Rightarrow> ('n, 'k) page_context \<Rightarrow> listener_return \<times> ('n, 'k) page_context" where
  "messageListener env request c =
     (if \<not> isParentDocument c then (ReturnsUndefined, c)
      else if sender request \<noteq> Some ''asbplayer-extension-to-video'' then (ReturnsUndefined, c)
      else if command (message request) = ''copy-to-clipboard'' then
        (ReturnsUndefined,
         floating
           (thenP (thenP (fetchP env (dataUrl (message request))) (\<lambda>response. blobP response))
              (\<lambda>blob. throwingCall (clipboardWrite env [(blob_type blob, blob)])
                 (\<lambda>written. catchP (clipboardWriteP written [(blob_type blob, blob)]) consoleError))) c)
      else if command (message request) = ''crop-and-resize'' then
        (case translateRect (message request) c of
           Inl e \<Rightarrow> (Throws e, c)
         | Inr (r, c1) \<Rightarrow>
             (ReturnsTrue,
              floating
                (thenP (cropAndResizeP env (maxWidth (message request)) (maxHeight (message request))
                          r (dataUrl (message request)))
                   (\<lambda>dataUrl. sendResponse dataUrl)) c1))
      else if command (message request) = ''show-anki-ui'' then
        (ReturnsUndefined,
         if request_src request = None then c\<lparr>calls := calls c @ [AnkiShow (message request)]\<rparr> else c)
      else if command (message request) = ''settings-updated'' then
        (ReturnsUndefined,
         (let c1 = bindToggleSidePanel c in c1\<lparr>calls := calls c1 @ [AnkiUpdateSettings]\<rparr>))
      else (ReturnsUndefined, c))"

subsection \<open>The life of a page context\<close>

text \<open>
  What can happen to a page context after \<open>bind\<close>, one turn of the event loop each: the
  interval timer fires (on the document as it is then), a message arrives, a pending read
  of the key bind set delivers, the bound key is pressed, a child frame announces itself
  to the listener, the page is about to unload. The timer fires only between
  \<open>setInterval\<close> and \<open>clearInterval\<close>, the listener is called only while it is added, and
  a read delivers only when one is pending.
\<close>

datatype ('n, 'k) page_event =
    Tick "video_element list"
  | Message "'n environment" "'n request"
  | KeyBindSetRead 'k
  | KeyPressed
  | FrameAnnounced string "'n iframe"
  | BeforeUnload

definition frameAnnounced ::
  "string \<Rightarrow> 'n iframe \<Rightarrow> ('n, 'k) page_context \<Rightarrow> ('n, 'k) page_context" where
  \<comment> \<open>Modelled from the spec: \<open>FrameInfoListener\<close> is not among the sources; while it is
      bound it stores the iframe element of a child frame that announces its frame id.\<close>
  "frameAnnounced fid iframe c =
     (case frameInfoListener c of
        None \<Rightarrow> c
      | Some l \<Rightarrow>
          (if listening l
           then c\<lparr>frameInfoListener :=
                    Some (l\<lparr>iframesById :=
                      Some ((case iframesById l of None \<Rightarrow> (\<lambda>id. None) | Some registry \<Rightarrow> registry)
                              (fid \<mapsto> iframe))\<rparr>)\<rparr>
           else c))"

fun step :: "('n::plus, 'k) page_context \<Rightarrow> ('n, 'k) page_event \<Rightarrow> ('n, 'k) page_context" where
  "step c (Tick videoElements) = (if videoInterval c then bindToVideoElements videoElements c else c)"
| "step c (Message env request) = (if listenerAdded c then snd (messageListener env request c) else c)"
| "step c (KeyBindSetRead keyBindSet) =
     (if pendingKeyBindSetReads c > 0
      then keyBindSetRead keyBindSet (c\<lparr>pendingKeyBindSetReads := pendingKeyBindSetReads c - 1\<rparr>)
      else c)"
| "step c KeyPressed = keyPressed c"
| "step c (FrameAnnounced fid iframe) = frameAnnounced fid iframe c"
| "step c BeforeUnload = beforeunload c"

definition run :: "('n::plus, 'k) page_context \<Rightarrow> ('n, 'k) page_event list \<Rightarrow> ('n, 'k) page_context" where
  "run c events = foldl step c events"

section \<open>Vocabulary of the properties\<close>

subsection \<open>Tracked, valid and eligible video elements\<close>

text \<open>
  The node identities of the valid video elements of a document, of those among them that
  the page delegate does not exclude, and of the elements the tracked Bindings hold.
\<close>

definition validVideos :: "video_element list \<Rightarrow> nat set" where
  "validVideos vs = set (map node (filter hasValidVideoSource vs))"

definition eligibleVideos :: "page_delegate option \<Rightarrow> video_element list \<Rightarrow> nat set" where
  "eligibleVideos pg vs =
     set (map node (filter (\<lambda>v. hasValidVideoSource v \<and> \<not> pageShouldIgnore pg v) vs))"

definition tracked :: "('n, 'k) page_context \<Rightarrow> nat set" where
  "tracked c = set (map video (bindings c))"

subsection \<open>Kinds of recorded calls\<close>

fun bindingCall :: "'n call \<Rightarrow> bool" where
  "bindingCall (BindingBind i) = True"
| "bindingCall (BindingUnbind i) = True"
| "bindingCall _ = False"

fun toggleCall :: "'n call \<Rightarrow> bool" where
  "toggleCall (ToggleBind h) = True"
| "toggleCall (ToggleUnbind h) = True"
| "toggleCall (ToggleSidePanelSent h) = True"
| "toggleCall _ = False"

subsection \<open>Invariants of a page context\<close>

text \<open>
  \<open>lifecycle_inv\<close> relates the tracked Bindings, the number of Bindings made so far and
  the recorded calls: every Binding made was bound once, and it was unbound once exactly
  when it is no longer tracked (never otherwise). \<open>torn_down\<close> holds once the unload
  handler has run. \<open>tracking_inv\<close> fixes the page delegate and says that no two tracked
  Bindings hold the same node. \<open>broadcaster_inv\<close> is the state of a child frame whose
  broadcaster runs exactly while something is tracked.
\<close>

definition lifecycle_inv :: "binding list \<Rightarrow> nat \<Rightarrow> 'n call list \<Rightarrow> bool" where
  "lifecycle_inv bs n cs \<longleftrightarrow>
     distinct (map oid bs) \<and> (\<forall>b\<in>set bs. oid b < n) \<and>
     (\<forall>i. count_list cs (BindingBind i) = (if i < n then 1 else 0)) \<and>
     (\<forall>i. count_list cs (BindingUnbind i) = (if i < n \<and> i \<notin> set (map oid bs) then 1 else 0))"

definition bindings_inv :: "('n, 'k) page_context \<Rightarrow> bool" where
  "bindings_inv c \<longleftrightarrow> lifecycle_inv (bindings c) (nextBinding c) (calls c)"

definition torn_down :: "('n, 'k) page_context \<Rightarrow> bool" where
  "torn_down c \<longleftrightarrow> \<not> videoInterval c \<and> bindings c = []"

definition tracking_inv :: "page_delegate option \<Rightarrow> ('n, 'k) page_context \<Rightarrow> bool" where
  "tracking_inv pg c \<longleftrightarrow> page c = pg \<and> distinct (map video (bindings c))"

definition broadcaster_inv :: "('n, 'k) page_context \<Rightarrow> bool" where
  "broadcaster_inv c \<longleftrightarrow>
     \<not> isParentDocument c \<and>
     (\<exists>fb. frameInfoBroadcaster c = Some fb \<and> (broadcasting fb \<longleftrightarrow> bindings c \<noteq> []))"

text \<open>
  A monitor reads the recorded calls in order and keeps the handler that is installed at
  that moment. It is violated when a handler is installed while another one still is, and
  when a handler sends \<open>toggle-side-panel\<close> although it is not the installed one.
  \<open>toggle_inv\<close> says that the handlers installed are the one the monitor has arrived at
  and that \<open>unbindToggleSidePanel\<close> releases it.
\<close>

datatype monitor = Violated | Installed "nat option"

fun monitorStep :: "monitor \<Rightarrow> 'n call \<Rightarrow> monitor" where
  "monitorStep Violated x = Violated"
| "monitorStep (Installed s) (ToggleBind h) = (if s = None then Installed (Some h) else Violated)"
| "monitorStep (Installed s) (ToggleUnbind h) = Installed (if s = Some h then None else s)"
| "monitorStep (Installed s) (ToggleSidePanelSent h) = (if s = Some h then Installed s else Violated)"
| "monitorStep (Installed s) x = Installed s"

definition toggleMonitor :: "'n call list \<Rightarrow> monitor" where
  "toggleMonitor cs = foldl monitorStep (Installed None) cs"

definition activeHandler :: "('n, 'k) page_context \<Rightarrow> nat option" where
  "activeHandler c = (case keyHandlers c of [] \<Rightarrow> None | (h, ks) # rest \<Rightarrow> Some h)"

definition toggle_inv :: "('n, 'k) page_context \<Rightarrow> bool" where
  "toggle_inv c \<longleftrightarrow>
     length (keyHandlers c) \<le> 1 \<and>
     (keyHandlers c = [] \<or> unbindToggleSidePanel c = activeHandler c) \<and>
     toggleMonitor (calls c) = Installed (activeHandler c)"

section \<open>Example documents, contexts and messages\<close>

text \<open>
  Concrete inputs on which the properties below are evaluated: four video elements (one
  with a direct source, one with a child source, one with neither, one that a page
  delegate excludes), a root document with one registered iframe and one rect object in
  the store, a child document, and the messages sent to them.
\<close>

definition movie :: video_element where
  "movie = \<lparr>node = 0, src = ''movie.mp4'', children = []\<rparr>"

definition clip :: video_element where
  "clip = \<lparr>node = 1, src = [],
            children = [\<lparr>tagName = ''TRACK'', child_src = Some ''subs.vtt''\<rparr>,
                        \<lparr>tagName = ''SOURCE'', child_src = Some ''clip.webm''\<rparr>]\<rparr>"

definition blank :: video_element where
  "blank = \<lparr>node = 2, src = [],
             children = [\<lparr>tagName = ''SOURCE'', child_src = Some []\<rparr>,
                         \<lparr>tagName = ''TRACK'', child_src = Some ''subs.vtt''\<rparr>]\<rparr>"

definition advert :: video_element where
  "advert = \<lparr>node = 3, src = ''advert.mp4'', children = []\<rparr>"

definition skipAdverts :: page_delegate where
  "skipAdverts = \<lparr>shouldIgnore = (\<lambda>videoElement. src videoElement = ''advert.mp4'')\<rparr>"

definition exampleFrame :: "int iframe" where
  "exampleFrame = \<lparr>boundingClientRect = \<lparr>left = 100, top_px = 50, width = 640, height = 360\<rparr>\<rparr>"

definition exampleRoot :: "(int, string) page_context" where
  "exampleRoot =
     (run (bind True None [] [movie]) [FrameAnnounced ''frame-1'' exampleFrame])
       \<lparr>heap := [\<lparr>left = 10, top_px = 20, width = 200, height = 100\<rparr>]\<rparr>"

definition exampleChild :: "(int, string) page_context" where
  "exampleChild = bind False None ''frame-1'' [movie]"

definition exampleEnv :: "int environment" where
  "exampleEnv =
     \<lparr>fetch = (\<lambda>url. Fulfilled (Response (Fulfilled \<lparr>blob_type = ''image/png'', bytes = url\<rparr>))),
      clipboardWrite = (\<lambda>items. Inr (Fulfilled ())),
      cropAndResize = (\<lambda>maxW maxH r url. Fulfilled url)\<rparr>"

definition rejectingEnv :: "int environment" where
  "rejectingEnv = exampleEnv\<lparr>fetch := (\<lambda>url. Rejected ''TypeError: Failed to fetch'')\<rparr>"

definition insecureEnv :: "int environment" where
  "insecureEnv =
     exampleEnv\<lparr>clipboardWrite :=
       (\<lambda>items. Inl ''TypeError: navigator.clipboard is undefined'')\<rparr>"

definition cropRequest :: "string option \<Rightarrow> int request" where
  "cropRequest fid =
     \<lparr>sender = Some ''asbplayer-extension-to-video'',
      message = \<lparr>command = ''crop-and-resize'', dataUrl = ''data:image/png;base64,AAAA'',
                 rect = 0, maxWidth = 1280, maxHeight = 720, frameId = fid\<rparr>,
      request_src = None\<rparr>"

definition copyRequest :: "int request" where
  "copyRequest =
     \<lparr>sender = Some ''asbplayer-extension-to-video'',
      message = \<lparr>command = ''copy-to-clipboard'', dataUrl = ''data:image/png;base64,AAAA'',
                 rect = 0, maxWidth = 0, maxHeight = 0, frameId = None\<rparr>,
      request_src = None\<rparr>"

definition settingsUpdated :: "int request" where
  "settingsUpdated =
     \<lparr>sender = Some ''asbplayer-extension-to-video'',
      message = \<lparr>command = ''settings-updated'', dataUrl = [],
                 rect = 0, maxWidth = 0, maxHeight = 0, frameId = None\<rparr>,
      request_src = None\<rparr>"

section \<open>The subtitle window stays around its index\<close>

lemma atBoundary_in_range:
  assumes "0 \<le> i" "i < int (length subtitles)" "0 \<le> index" "index < int (length subtitles)"
  shows "\<exists>b. atBoundary subtitles i index countRadius timeRadius sign = Inr b"
  using assms by (auto simp: atBoundary_def subscript_def Let_def)

lemma startLoop_range:
  assumes "i \<le> index" "index < int (length subtitles)" "0 \<le> i"
  shows "\<exists>s. startLoop subtitles index countRadius timeRadius i startIndex = Inr (Some s) \<and> 0 \<le> s \<and> s \<le> i"
  using assms
proof (induction subtitles index countRadius timeRadius i startIndex rule: startLoop.induct)
  case (1 subtitles index countRadius timeRadius i startIndex)
  from "1.prems" obtain b where b: "atBoundary subtitles i index countRadius timeRadius False = Inr b"
    using atBoundary_in_range[of i subtitles index countRadius timeRadius False] by auto
  show ?case
  proof (cases b)
    case True
    with b "1.prems" show ?thesis by (subst startLoop.simps) simp
  next
    case False
    show ?thesis
    proof (cases "i = 0")
      case True
      with b False show ?thesis
        by (subst startLoop.simps) (simp add: startLoop.simps[of _ _ _ _ "-1"])
    next
      case nz: False
      with "1.prems" have "0 \<le> i - 1" "i - 1 \<le> index" by auto
      with "1.IH"[OF _ b[unfolded False] ] "1.prems" b False
      obtain s where "startLoop subtitles index countRadius timeRadius (i - 1) (Some i) = Inr (Some s)" "0 \<le> s" "s \<le> i - 1"
        by auto
      with b False "1.prems" show ?thesis
        by (subst startLoop.simps) auto
    qed
  qed
qed

lemma endLoop_range:
  assumes "index \<le> i" "0 \<le> index" "i < int (length subtitles)"
  shows "\<exists>e. endLoop subtitles index countRadius timeRadius i endIndex = Inr (Some e) \<and> i \<le> e \<and> e < int (length subtitles)"
  using assms
proof (induction subtitles index countRadius timeRadius i endIndex rule: endLoop.induct)
  case (1 subtitles index countRadius timeRadius i endIndex)
  from "1.prems" obtain b where b: "atBoundary subtitles i index countRadius timeRadius True = Inr b"
    using atBoundary_in_range[of i subtitles index countRadius timeRadius True] by auto
  show ?case
  proof (cases b)
    case True
    with b "1.prems" show ?thesis by (subst endLoop.simps) simp
  next
    case False
    show ?thesis
    proof (cases "i = int (length subtitles) - 1")
      case True
      with b False show ?thesis
        by (subst endLoop.simps) (simp add: endLoop.simps[of _ _ _ _ "int (length subtitles)"])
    next
      case nz: False
      with "1.prems" have "i + 1 < int (length subtitles)" "index \<le> i + 1" by auto
      with "1.IH"[OF _ b[unfolded False] ] "1.prems" b False
      obtain e where "endLoop subtitles index countRadius timeRadius (i + 1) (Some i) = Inr (Some e)" "i + 1 \<le> e" "e < int (length subtitles)"
        by auto
      with b False "1.prems" show ?thesis
        by (subst endLoop.simps) auto
    qed
  qed
qed

lemma slice_in_range:
  assumes "0 \<le> s" "s \<le> e" "e < int (length xs)"
  shows "slice xs (Some s) (Some (e + 1)) = take (nat (e + 1 - s)) (drop (nat s) xs)"
  using assms by (simp add: slice_def Let_def min_def)

text \<open>
  Claim C10. For every subtitles array and every index with \<open>0 \<le> index < length\<close>,
  \<open>surroundingSubtitles\<close> returns normally, and what it returns is the contiguous slice
  \<open>subtitles[startIndex .. endIndex]\<close> for indices with
  \<open>0 \<le> startIndex \<le> index \<le> endIndex < length\<close>: it is not empty and holds
  \<open>subtitles[index]\<close>, at position \<open>index - startIndex\<close>, whatever the count and time
  radius are.
\<close>

theorem surroundingSubtitles_contains_index:
  assumes "0 \<le> index" and "index < int (length subtitles)"
  shows "\<exists>startIndex endIndex result.
           0 \<le> startIndex \<and> startIndex \<le> index \<and> index \<le> endIndex \<and>
           endIndex < int (length subtitles) \<and>
           surroundingSubtitles subtitles index countRadius timeRadius = Inr result \<and>
           result = take (nat (endIndex + 1 - startIndex)) (drop (nat startIndex) subtitles) \<and>
           length result = nat (endIndex + 1 - startIndex) \<and>
           result \<noteq> [] \<and>
           result ! nat (index - startIndex) = subtitles ! nat index"
proof -
  obtain s where s: "startLoop subtitles index countRadius timeRadius index None = Inr (Some s)"
      "0 \<le> s" "s \<le> index"
    using startLoop_range[of index index subtitles countRadius timeRadius None] assms by auto
  obtain e where e: "endLoop subtitles index countRadius timeRadius index None = Inr (Some e)"
      "index \<le> e" "e < int (length subtitles)"
    using endLoop_range[of index index subtitles countRadius timeRadius None] assms by auto
  let ?r = "take (nat (e + 1 - s)) (drop (nat s) subtitles)"
  have res: "surroundingSubtitles subtitles index countRadius timeRadius = Inr ?r"
    using s e by (simp add: surroundingSubtitles_def slice_in_range)
  have len: "length ?r = nat (e + 1 - s)"
    using s e by simp
  have ne: "?r \<noteq> []"
    using len s e by auto
  have "nat (index - s) < nat (e + 1 - s)"
    using s e by simp
  then have "?r ! nat (index - s) = drop (nat s) subtitles ! nat (index - s)"
    by simp
  also have "\<dots> = subtitles ! (nat s + nat (index - s))"
    using s e by simp
  also have "nat s + nat (index - s) = nat index"
    using s by simp
  finally have at: "?r ! nat (index - s) = subtitles ! nat index" .
  from s e res len ne at show ?thesis by blast
qed

theorem surroundingSubtitles_contains_index_witness:
  "(0::int) \<le> 1 \<and> (1::int) < int (length [\<lparr>start = 0\<rparr>, \<lparr>start = 1000\<rparr>, \<lparr>start = 5000\<rparr>, \<lparr>start = 9000\<rparr>]) \<and>
   (\<exists>startIndex endIndex result.
      0 \<le> startIndex \<and> startIndex \<le> 1 \<and> 1 \<le> endIndex \<and>
      endIndex < int (length [\<lparr>start = 0\<rparr>, \<lparr>start = 1000\<rparr>, \<lparr>start = 5000\<rparr>, \<lparr>start = 9000\<rparr>]) \<and>
      surroundingSubtitles [\<lparr>start = 0\<rparr>, \<lparr>start = 1000\<rparr>, \<lparr>start = 5000\<rparr>, \<lparr>start = 9000\<rparr>] 1 1 2000 = Inr result \<and>
      result = take (nat (endIndex + 1 - startIndex)) (drop (nat startIndex) [\<lparr>start = 0\<rparr>, \<lparr>start = 1000\<rparr>, \<lparr>start = 5000\<rparr>, \<lparr>start = 9000\<rparr>]) \<and>
      length result = nat (endIndex + 1 - startIndex) \<and>
      result \<noteq> [] \<and>
      result ! nat (1 - startIndex) = [\<lparr>start = 0\<rparr>, \<lparr>start = 1000\<rparr>, \<lparr>start = 5000\<rparr>, \<lparr>start = 9000\<rparr>] ! nat 1)"
proof -
  have h1: "(0::int) \<le> 1" by simp
  have h2: "(1::int) < int (length [\<lparr>start = 0\<rparr>, \<lparr>start = 1000\<rparr>, \<lparr>start = 5000\<rparr>, \<lparr>start = 9000\<rparr>])" by simp
  show ?thesis
    using h1 h2 surroundingSubtitles_contains_index [OF h1 h2, of 1 2000] by blast
qed

lemma surroundingSubtitles_example:
  "surroundingSubtitles [\<lparr>start = 0\<rparr>, \<lparr>start = 1000\<rparr>, \<lparr>start = 5000\<rparr>, \<lparr>start = 9000\<rparr>] 1 1 2000
     = Inr [\<lparr>start = 0\<rparr>, \<lparr>start = 1000\<rparr>, \<lparr>start = 5000\<rparr>]"
  by (simp add: surroundingSubtitles_def atBoundary_def subscript_def slice_def Let_def)

section \<open>The command router\<close>

subsection \<open>The gate\<close>

text \<open>
  Claim C3. An envelope whose sender is not \<open>asbplayer-extension-to-video\<close>, and every
  envelope delivered to a document that is not the root, makes the listener return
  \<open>undefined\<close> with the whole page context as it was: no handler is dispatched, and the
  bindings, the frame registry, the key binding, the clipboard and the calls recorded for
  the UI controller are untouched.
\<close>

theorem messageListener_gate:
  assumes "\<not> isParentDocument c \<or> sender request \<noteq> Some ''asbplayer-extension-to-video''"
  shows "messageListener env request c = (ReturnsUndefined, c)"
  using assms by (auto simp: messageListener_def)

subsection \<open>crop-and-resize\<close>

lemma crop_not_copy: "''crop-and-resize'' \<noteq> ''copy-to-clipboard''"
  by simp

lemma messageListener_crop:
  assumes "isParentDocument c"
    and "sender request = Some ''asbplayer-extension-to-video''"
    and "command (message request) = ''crop-and-resize''"
  shows "messageListener env request c =
     (case translateRect (message request) c of
           Inl e \<Rightarrow> (Throws e, c)
         | Inr (r, c1) \<Rightarrow>
             (ReturnsTrue,
              floating
                (thenP (cropAndResizeP env (maxWidth (message request)) (maxHeight (message request))
                          r (dataUrl (message request)))
                   (\<lambda>dataUrl. sendResponse dataUrl)) c1))"
  using assms by (simp add: messageListener_def)

lemma crop_chain_calls:
  "calls (floating (thenP (cropAndResizeP env mw mh r url) (\<lambda>dataUrl. sendResponse dataUrl)) c)
     = calls c @ [CropAndResize mw mh r url]"
  by (simp add: floating_def thenP_def cropAndResizeP_def sendResponse_def split: settled.splits)

lemma crop_chain_heap:
  "heap (floating (thenP (cropAndResizeP env mw mh r url) (\<lambda>dataUrl. sendResponse dataUrl)) c)
     = heap c"
  by (simp add: floating_def thenP_def cropAndResizeP_def sendResponse_def split: settled.splits)

lemma crop_chain_responses:
  "sentResponses (floating (thenP (cropAndResizeP env mw mh r url) (\<lambda>dataUrl. sendResponse dataUrl)) c)
     = sentResponses c @ (case cropAndResize env mw mh (deref (heap c) r) url of
                            Fulfilled d \<Rightarrow> [d] | Rejected e \<Rightarrow> [] | Pending \<Rightarrow> [])"
  by (simp add: floating_def thenP_def cropAndResizeP_def sendResponse_def split: settled.splits)

text \<open>
  Claim C2. For a crop-and-resize envelope handled in the root document: without a
  \<open>frameId\<close> the transform is called with the envelope's own rect object, which is
  unchanged; with a \<open>frameId\<close> that is registered, the transform is called with a rect
  whose \<open>left\<close> and \<open>top\<close> are those of the envelope's rect plus the \<open>left\<close> and
  \<open>top\<close> of the iframe's bounding rect, and whose \<open>width\<close> and \<open>height\<close> are those of
  the envelope's rect. Addition is that of the number type, whatever it is.
\<close>

theorem crop_and_resize_rect:
  assumes "isParentDocument c"
    and "sender request = Some ''asbplayer-extension-to-video''"
    and "command (message request) = ''crop-and-resize''"
  shows "(frameId (message request) = None \<longrightarrow>
            fst (messageListener env request c) = ReturnsTrue \<and>
            calls (snd (messageListener env request c)) =
              calls c @ [CropAndResize (maxWidth (message request)) (maxHeight (message request))
                           (rect (message request)) (dataUrl (message request))] \<and>
            heap (snd (messageListener env request c)) = heap c)
       \<and> (\<forall>fid iframe r.
            frameId (message request) = Some fid \<and> lookupIframe c fid = Some iframe \<and>
            deref (heap c) (rect (message request)) = Some r \<longrightarrow>
            fst (messageListener env request c) = ReturnsTrue \<and>
            (\<exists>a. calls (snd (messageListener env request c)) =
                    calls c @ [CropAndResize (maxWidth (message request)) (maxHeight (message request))
                                 a (dataUrl (message request))] \<and>
                 deref (heap (snd (messageListener env request c))) a =
                    Some \<lparr>left = left r + left (boundingClientRect iframe),
                          top_px = top_px r + top_px (boundingClientRect iframe),
                          width = width r,
                          height = height r\<rparr>))"
proof (intro conjI impI allI)
  assume "frameId (message request) = None"
  then have t: "translateRect (message request) c = Inr (rect (message request), c)"
    by (simp add: translateRect_def)
  show "fst (messageListener env request c) = ReturnsTrue"
    by (simp add: messageListener_crop[OF assms] t)
  show "calls (snd (messageListener env request c)) =
              calls c @ [CropAndResize (maxWidth (message request)) (maxHeight (message request))
                           (rect (message request)) (dataUrl (message request))]"
    by (simp add: messageListener_crop[OF assms] t crop_chain_calls)
  show "heap (snd (messageListener env request c)) = heap c"
    by (simp add: messageListener_crop[OF assms] t crop_chain_heap)
next
  fix fid iframe r
  assume h: "frameId (message request) = Some fid \<and> lookupIframe c fid = Some iframe \<and>
            deref (heap c) (rect (message request)) = Some r"
  let ?r' = "\<lparr>left = left r + left (boundingClientRect iframe),
                          top_px = top_px r + top_px (boundingClientRect iframe),
                          width = width r,
                          height = height r\<rparr>"
  from h have t: "translateRect (message request) c = Inr (length (heap c), c\<lparr>heap := heap c @ [?r']\<rparr>)"
    by (simp add: translateRect_def Let_def)
  show "fst (messageListener env request c) = ReturnsTrue"
    by (simp add: messageListener_crop[OF assms] t)
  have "calls (snd (messageListener env request c)) =
                    calls c @ [CropAndResize (maxWidth (message request)) (maxHeight (message request))
                                 (length (heap c)) (dataUrl (message request))]"
    by (simp add: messageListener_crop[OF assms] t crop_chain_calls)
  moreover have "deref (heap (snd (messageListener env request c))) (length (heap c)) = Some ?r'"
    by (simp add: messageListener_crop[OF assms] t crop_chain_heap deref_def)
  ultimately show "\<exists>a. calls (snd (messageListener env request c)) =
                    calls c @ [CropAndResize (maxWidth (message request)) (maxHeight (message request))
                                 a (dataUrl (message request))] \<and>
                 deref (heap (snd (messageListener env request c))) a = Some ?r'"
    by blast
qed

text \<open>
  Claim C4. A crop-and-resize envelope whose \<open>frameId\<close> is not registered (or that meets
  no listener at all, see \<open>lookupIframe_no_listener\<close>) is handled exactly as the same
  envelope without a \<open>frameId\<close>: the listener returns \<open>true\<close>, the transform is called
  with the envelope's own rect, untranslated, and the response is sent with the data URL
  the transform delivers.
\<close>

theorem unregistered_frameId_degrades:
  assumes "isParentDocument c"
    and "sender request = Some ''asbplayer-extension-to-video''"
    and "command (message request) = ''crop-and-resize''"
    and "frameId (message request) = Some fid"
    and "lookupIframe c fid = None"
  shows "messageListener env request c =
           messageListener env (request\<lparr>message := (message request)\<lparr>frameId := None\<rparr>\<rparr>) c
       \<and> fst (messageListener env request c) = ReturnsTrue
       \<and> calls (snd (messageListener env request c)) =
              calls c @ [CropAndResize (maxWidth (message request)) (maxHeight (message request))
                           (rect (message request)) (dataUrl (message request))]
       \<and> heap (snd (messageListener env request c)) = heap c
       \<and> sentResponses (snd (messageListener env request c)) =
              sentResponses c @
                (case cropAndResize env (maxWidth (message request)) (maxHeight (message request))
                        (deref (heap c) (rect (message request))) (dataUrl (message request)) of
                   Fulfilled d \<Rightarrow> [d] | Rejected e \<Rightarrow> [] | Pending \<Rightarrow> [])"
proof -
  have t: "translateRect (message request) c = Inr (rect (message request), c)"
    using assms(4,5) by (simp add: translateRect_def)
  have t': "translateRect ((message request)\<lparr>frameId := None\<rparr>) c = Inr (rect (message request), c)"
    by (simp add: translateRect_def)
  have "messageListener env (request\<lparr>message := (message request)\<lparr>frameId := None\<rparr>\<rparr>) c
      = (ReturnsTrue,
              floating
                (thenP (cropAndResizeP env (maxWidth (message request)) (maxHeight (message request))
                          (rect (message request)) (dataUrl (message request)))
                   (\<lambda>dataUrl. sendResponse dataUrl)) c)"
    using assms(1-3) t' by (simp add: messageListener_def)
  moreover have m: "messageListener env request c
      = (ReturnsTrue,
              floating
                (thenP (cropAndResizeP env (maxWidth (message request)) (maxHeight (message request))
                          (rect (message request)) (dataUrl (message request)))
                   (\<lambda>dataUrl. sendResponse dataUrl)) c)"
    by (simp add: messageListener_crop[OF assms(1-3)] t)
  ultimately show ?thesis
    by (simp add: crop_chain_calls crop_chain_heap crop_chain_responses)
qed

lemma lookupIframe_no_listener: "frameInfoListener c = None \<Longrightarrow> lookupIframe c fid = None"
  by (simp add: lookupIframe_def)

subsection \<open>The store of rect objects\<close>

lemma translateRect_heap:
  assumes "translateRect m c = Inr (r, c1)"
  shows "take (length (heap c)) (heap c1) = heap c \<and> deref (heap c1) (rect m) = deref (heap c) (rect m)"
  using assms
  by (auto simp: translateRect_def Let_def deref_def nth_append split: option.splits if_splits)

lemma copy_chain_heap:
  "heap (floating
           (thenP (thenP (fetchP env url) (\<lambda>response. blobP response))
              (\<lambda>blob. throwingCall (clipboardWrite env [(blob_type blob, blob)])
                 (\<lambda>written. catchP (clipboardWriteP written [(blob_type blob, blob)]) consoleError))) c) = heap c"
  by (cases "fetch env url")
     (auto simp: floating_def thenP_def catchP_def fetchP_def blobP_def throwingCall_def clipboardWriteP_def
           consoleError_def split: settled.splits response.splits sum.splits)

text \<open>
  Claim C9. Handling an envelope leaves the rect object of the envelope as it was,
  translated or not: the object the envelope's \<open>rect\<close> refers to is the same before and
  after, and so is every object that existed before (the translated rect is a new object,
  see \<open>translated_rect_is_fresh\<close>). The fields of the message are values of the model and
  are never assigned.
\<close>

theorem messageListener_keeps_rect:
  "deref (heap (snd (messageListener env request c))) (rect (message request))
     = deref (heap c) (rect (message request))
   \<and> take (length (heap c)) (heap (snd (messageListener env request c))) = heap c"
proof (cases "isParentDocument c \<and> sender request = Some ''asbplayer-extension-to-video''")
  case False
  then have "messageListener env request c = (ReturnsUndefined, c)"
    by (auto simp: messageListener_def)
  then show ?thesis by simp
next
  case root: True
  show ?thesis
  proof (cases "command (message request) = ''crop-and-resize''")
    case True
    show ?thesis
    proof (cases "translateRect (message request) c")
      case (Inl e)
      then show ?thesis using root True by (simp add: messageListener_crop)
    next
      case (Inr p)
      obtain r c1 where p: "p = (r, c1)" by (cases p)
      from translateRect_heap[OF Inr[unfolded p]] show ?thesis
        using root True Inr p by (simp add: messageListener_crop crop_chain_heap)
    qed
  next
    case False
    then show ?thesis
      using root by (simp add: messageListener_def copy_chain_heap bindToggleSidePanel_def Let_def)
  qed
qed

lemma translated_rect_is_fresh:
  assumes "translateRect m c = Inr (r, c1)" and "frameId m = Some fid" and "lookupIframe c fid = Some iframe"
  shows "r \<noteq> rect m \<and> deref (heap c) r = None"
  using assms by (auto simp: translateRect_def Let_def deref_def split: option.splits if_splits)

subsection \<open>copy-to-clipboard\<close>

lemma copy_returns:
  assumes "command (message request) = ''copy-to-clipboard''"
  shows "fst (messageListener env request c) = ReturnsUndefined"
  using assms by (simp add: messageListener_def)

lemma copy_chain_unhandled:
  "unhandledRejections (floating
           (thenP (thenP (fetchP env url) (\<lambda>response. blobP response))
              (\<lambda>blob. throwingCall (clipboardWrite env [(blob_type blob, blob)])
                 (\<lambda>written. catchP (clipboardWriteP written [(blob_type blob, blob)]) consoleError))) c)
     = unhandledRejections c @
        (case fetch env url of
           Rejected e \<Rightarrow> [e]
         | Fulfilled (Response (Rejected e)) \<Rightarrow> [e]
         | Fulfilled (Response (Fulfilled blob)) \<Rightarrow>
             (case clipboardWrite env [(blob_type blob, blob)] of Inl e \<Rightarrow> [e] | Inr written \<Rightarrow> [])
         | _ \<Rightarrow> [])"
  by (cases "fetch env url")
     (auto simp: floating_def thenP_def catchP_def fetchP_def blobP_def throwingCall_def clipboardWriteP_def
           consoleError_def split: settled.splits response.splits sum.splits)

lemma copy_chain_console:
  "console (floating
           (thenP (thenP (fetchP env url) (\<lambda>response. blobP response))
              (\<lambda>blob. throwingCall (clipboardWrite env [(blob_type blob, blob)])
                 (\<lambda>written. catchP (clipboardWriteP written [(blob_type blob, blob)]) consoleError))) c)
     = console c @
        (case fetch env url of
           Fulfilled (Response (Fulfilled blob)) \<Rightarrow>
             (case clipboardWrite env [(blob_type blob, blob)] of Inr (Rejected e) \<Rightarrow> [e] | _ \<Rightarrow> [])
         | _ \<Rightarrow> [])"
  by (cases "fetch env url")
     (auto simp: floating_def thenP_def catchP_def fetchP_def blobP_def throwingCall_def clipboardWriteP_def
           consoleError_def split: settled.splits response.splits sum.splits)

section \<open>The discovery loop\<close>

subsection \<open>What the two loops leave behind\<close>

lemma sourceLoop_iff:
  "sourceLoop cs \<longleftrightarrow> (\<exists>e\<in>set cs. tagName e = ''SOURCE'' \<and> truthy (child_src e))"
  by (induction cs) auto

lemma hasValidVideoSource_iff:
  "hasValidVideoSource v \<longleftrightarrow>
     src v \<noteq> [] \<or> (\<exists>e\<in>set (children v). tagName e = ''SOURCE'' \<and> truthy (child_src e))"
  by (simp add: hasValidVideoSource_def sourceLoop_iff)

lemma videoElementExists_iff:
  "videoElementExists vs b \<longleftrightarrow> (\<exists>v\<in>set vs. node v = video b \<and> hasValidVideoSource v)"
  by (induction vs) auto

lemma bindingExists_iff:
  "(filter (\<lambda>b. video b = n) bs = []) \<longleftrightarrow> n \<notin> set (map video bs)"
  by (induction bs) auto

lemma addLoop_frame:
  "page (addLoop vs c) = page c \<and>
   subSyncAvailable (addLoop vs c) = subSyncAvailable c \<and>
   frameInfoListener (addLoop vs c) = frameInfoListener c \<and>
   frameInfoBroadcaster (addLoop vs c) = frameInfoBroadcaster c \<and>
   isParentDocument (addLoop vs c) = isParentDocument c \<and>
   videoInterval (addLoop vs c) = videoInterval c \<and>
   listenerAdded (addLoop vs c) = listenerAdded c \<and>
   unbindToggleSidePanel (addLoop vs c) = unbindToggleSidePanel c \<and>
   keyHandlers (addLoop vs c) = keyHandlers c \<and>
   pendingKeyBindSetReads (addLoop vs c) = pendingKeyBindSetReads c \<and>
   nextHandler (addLoop vs c) = nextHandler c \<and>
   heap (addLoop vs c) = heap c"
  by (induction vs arbitrary: c) (simp_all add: Let_def)

lemmas addLoop_page = addLoop_frame[THEN conjunct1]

lemma mem_validVideos:
  "n \<in> validVideos vs \<longleftrightarrow> (\<exists>v\<in>set vs. node v = n \<and> hasValidVideoSource v)"
  by (auto simp: validVideos_def)

lemma mem_eligibleVideos:
  "n \<in> eligibleVideos pg vs \<longleftrightarrow>
     (\<exists>v\<in>set vs. node v = n \<and> hasValidVideoSource v \<and> \<not> pageShouldIgnore pg v)"
  by (auto simp: eligibleVideos_def)

lemma mem_tracked: "n \<in> tracked c \<longleftrightarrow> (\<exists>b\<in>set (bindings c). video b = n)"
  by (auto simp: tracked_def)

lemma addLoop_tracked:
  "tracked (addLoop vs c) = tracked c \<union> eligibleVideos (page c) vs"
proof (induction vs arbitrary: c)
  case Nil
  show ?case by (simp add: eligibleVideos_def)
next
  case (Cons v vs)
  let ?cond = "node v \<notin> set (map video (bindings c)) \<and> hasValidVideoSource v
                 \<and> \<not> pageShouldIgnore (page c) v"
  let ?b = "\<lparr>video = node v, syncAvailable = subSyncAvailable c,
             bindingFrameId = map_option broadcasterFrameId (frameInfoBroadcaster c),
             oid = nextBinding c\<rparr>"
  let ?c' = "c\<lparr>nextBinding := Suc (nextBinding c), calls := calls c @ [BindingBind (nextBinding c)],
               bindings := bindings c @ [?b]\<rparr>"
  have split: "eligibleVideos (page c) (v # vs) =
      (if hasValidVideoSource v \<and> \<not> pageShouldIgnore (page c) v then {node v} else {})
        \<union> eligibleVideos (page c) vs"
    by (simp add: eligibleVideos_def)
  show ?case
  proof (cases ?cond)
    case True
    from True have eq: "addLoop (v # vs) c = addLoop vs ?c'"
      by (simp add: Let_def bindingExists_iff)
    have "tracked (addLoop vs ?c') = tracked ?c' \<union> eligibleVideos (page ?c') vs"
      by (rule Cons.IH)
    moreover have "tracked ?c' = insert (node v) (tracked c)"
      by (simp add: tracked_def)
    moreover have "page ?c' = page c" by simp
    ultimately have "tracked (addLoop vs ?c') = insert (node v) (tracked c) \<union> eligibleVideos (page c) vs"
      by simp
    then show ?thesis
      unfolding eq split using True by auto
  next
    case False
    from False have eq: "addLoop (v # vs) c = addLoop vs c"
      by (auto simp: Let_def bindingExists_iff)
    have "tracked (addLoop vs c) = tracked c \<union> eligibleVideos (page c) vs"
      by (rule Cons.IH)
    then show ?thesis
      unfolding eq split using False by (auto simp: tracked_def)
  qed
qed

lemma addLoop_distinct:
  "distinct (map video (bindings c)) \<Longrightarrow> distinct (map video (bindings (addLoop vs c)))"
proof (induction vs arbitrary: c)
  case Nil
  then show ?case by simp
next
  case (Cons v vs)
  show ?case
  proof (cases "node v \<notin> set (map video (bindings c)) \<and> hasValidVideoSource v
                  \<and> \<not> pageShouldIgnore (page c) v")
    case True
    let ?b = "\<lparr>video = node v, syncAvailable = subSyncAvailable c,
             bindingFrameId = map_option broadcasterFrameId (frameInfoBroadcaster c),
             oid = nextBinding c\<rparr>"
    let ?c' = "c\<lparr>nextBinding := Suc (nextBinding c), calls := calls c @ [BindingBind (nextBinding c)],
               bindings := bindings c @ [?b]\<rparr>"
    from True have eq: "addLoop (v # vs) c = addLoop vs ?c'"
      by (simp add: Let_def bindingExists_iff)
    have "distinct (map video (bindings ?c'))"
      using True Cons.prems by simp
    then show ?thesis
      unfolding eq by (rule Cons.IH)
  next
    case False
    then have eq: "addLoop (v # vs) c = addLoop vs c"
      by (auto simp: Let_def bindingExists_iff)
    show ?thesis
      unfolding eq using Cons.prems by (rule Cons.IH)
  qed
qed

lemma removeLoop_frame:
  "page (removeLoop vs k c) = page c \<and>
   subSyncAvailable (removeLoop vs k c) = subSyncAvailable c \<and>
   frameInfoListener (removeLoop vs k c) = frameInfoListener c \<and>
   frameInfoBroadcaster (removeLoop vs k c) = frameInfoBroadcaster c \<and>
   isParentDocument (removeLoop vs k c) = isParentDocument c \<and>
   videoInterval (removeLoop vs k c) = videoInterval c \<and>
   listenerAdded (removeLoop vs k c) = listenerAdded c \<and>
   unbindToggleSidePanel (removeLoop vs k c) = unbindToggleSidePanel c \<and>
   keyHandlers (removeLoop vs k c) = keyHandlers c \<and>
   pendingKeyBindSetReads (removeLoop vs k c) = pendingKeyBindSetReads c \<and>
   nextHandler (removeLoop vs k c) = nextHandler c \<and>
   nextBinding (removeLoop vs k c) = nextBinding c \<and>
   heap (removeLoop vs k c) = heap c"
  by (induction k arbitrary: c) (simp_all add: Let_def)

lemma removeLoop_bindings:
  "k \<le> length (bindings c) \<Longrightarrow>
   bindings (removeLoop vs k c) =
     filter (videoElementExists vs) (take k (bindings c)) @ drop k (bindings c)"
proof (induction k arbitrary: c)
  case 0
  show ?case by simp
next
  case (Suc i)
  let ?bs = "bindings c"
  from Suc.prems have i: "i < length ?bs" by simp
  show ?case
  proof (cases "videoElementExists vs (?bs ! i)")
    case True
    then have "bindings (removeLoop vs (Suc i) c) = bindings (removeLoop vs i c)"
      by (simp add: Let_def)
    also have "\<dots> = filter (videoElementExists vs) (take i ?bs) @ drop i ?bs"
      using Suc.IH[of c] i by simp
    also have "\<dots> = filter (videoElementExists vs) (take (Suc i) ?bs) @ drop (Suc i) ?bs"
      using i True by (simp add: take_Suc_conv_app_nth Cons_nth_drop_Suc)
    finally show ?thesis .
  next
    case False
    let ?c' = "c\<lparr>bindings := take i ?bs @ drop (Suc i) ?bs,
                 calls := calls c @ [BindingUnbind (oid (?bs ! i))]\<rparr>"
    have "bindings (removeLoop vs (Suc i) c) = bindings (removeLoop vs i ?c')"
      using False by (simp add: Let_def)
    also have "\<dots> = filter (videoElementExists vs) (take i (bindings ?c')) @ drop i (bindings ?c')"
      using i by (intro Suc.IH) simp
    also have "\<dots> = filter (videoElementExists vs) (take i ?bs) @ drop (Suc i) ?bs"
      using i by simp
    also have "\<dots> = filter (videoElementExists vs) (take (Suc i) ?bs) @ drop (Suc i) ?bs"
      using i False by (simp add: take_Suc_conv_app_nth)
    finally show ?thesis .
  qed
qed

lemma bindToVideoElements_bindings:
  "bindings (bindToVideoElements vs c) = filter (videoElementExists vs) (bindings (addLoop vs c))"
  by (simp add: bindToVideoElements_def Let_def removeLoop_bindings)

lemma tracked_filter_valid:
  "set (map video (filter (videoElementExists vs) bs)) = set (map video bs) \<inter> validVideos vs"
proof (rule set_eqI)
  fix n
  show "n \<in> set (map video (filter (videoElementExists vs) bs))
          \<longleftrightarrow> n \<in> set (map video bs) \<inter> validVideos vs"
    unfolding Int_iff mem_validVideos by (auto simp: videoElementExists_iff)
qed

lemma eligible_subset_valid: "eligibleVideos pg vs \<subseteq> validVideos vs"
  by (auto simp: mem_eligibleVideos mem_validVideos)

lemma eligible_no_page: "eligibleVideos None vs = validVideos vs"
  by (simp add: eligibleVideos_def validVideos_def pageShouldIgnore_def)

lemma bindToVideoElements_tracked:
  "tracked (bindToVideoElements vs c) = (tracked c \<inter> validVideos vs) \<union> eligibleVideos (page c) vs"
proof -
  have "tracked (bindToVideoElements vs c) = tracked (addLoop vs c) \<inter> validVideos vs"
    by (simp add: tracked_def bindToVideoElements_bindings tracked_filter_valid del: set_map)
  then show ?thesis
    using eligible_subset_valid[of "page c" vs] by (auto simp: addLoop_tracked)
qed

lemma bindToVideoElements_distinct:
  "distinct (map video (bindings c)) \<Longrightarrow> distinct (map video (bindings (bindToVideoElements vs c)))"
  by (simp add: bindToVideoElements_bindings distinct_map_filter addLoop_distinct)

subsection \<open>What a turn does not touch\<close>

lemma copy_chain_frame:
  fixes c :: "('n, 'k) page_context" and env :: "'n environment" and url :: string
  defines "c' \<equiv> floating
           (thenP (thenP (fetchP env url) (\<lambda>response. blobP response))
              (\<lambda>blob. throwingCall (clipboardWrite env [(blob_type blob, blob)])
                 (\<lambda>written. catchP (clipboardWriteP written [(blob_type blob, blob)]) consoleError))) c"
  shows "bindings c' = bindings c \<and> page c' = page c \<and> nextBinding c' = nextBinding c \<and>
         frameInfoBroadcaster c' = frameInfoBroadcaster c \<and> isParentDocument c' = isParentDocument c \<and>
         keyHandlers c' = keyHandlers c \<and> unbindToggleSidePanel c' = unbindToggleSidePanel c \<and>
         videoInterval c' = videoInterval c \<and> calls c' = calls c"
  unfolding c'_def
  by (cases "fetch env url")
     (auto simp: floating_def thenP_def catchP_def fetchP_def blobP_def throwingCall_def clipboardWriteP_def
           consoleError_def split: settled.splits response.splits sum.splits)

lemma crop_chain_frame:
  fixes c :: "('n, 'k) page_context" and env :: "'n environment" and mw mh :: 'n
    and r :: nat and url :: string
  defines "c' \<equiv> floating (thenP (cropAndResizeP env mw mh r url) (\<lambda>dataUrl. sendResponse dataUrl)) c"
  shows "bindings c' = bindings c \<and> page c' = page c \<and> nextBinding c' = nextBinding c \<and>
         frameInfoBroadcaster c' = frameInfoBroadcaster c \<and> isParentDocument c' = isParentDocument c \<and>
         keyHandlers c' = keyHandlers c \<and> unbindToggleSidePanel c' = unbindToggleSidePanel c \<and>
         videoInterval c' = videoInterval c"
  unfolding c'_def
  by (simp add: floating_def thenP_def cropAndResizeP_def sendResponse_def split: settled.splits)

lemma translateRect_frame:
  assumes "translateRect m c = Inr (r, c1)"
  shows "bindings c1 = bindings c \<and> page c1 = page c \<and> nextBinding c1 = nextBinding c \<and>
         frameInfoBroadcaster c1 = frameInfoBroadcaster c \<and> isParentDocument c1 = isParentDocument c \<and>
         keyHandlers c1 = keyHandlers c \<and> unbindToggleSidePanel c1 = unbindToggleSidePanel c \<and>
         videoInterval c1 = videoInterval c \<and> calls c1 = calls c"
  using assms by (auto simp: translateRect_def Let_def split: option.splits)

lemma messageListener_frame:
  fixes c :: "('n::plus, 'k) page_context" and env :: "'n environment" and request :: "'n request"
  defines "c' \<equiv> snd (messageListener env request c)"
  shows "bindings c' = bindings c \<and> page c' = page c \<and> nextBinding c' = nextBinding c \<and>
         frameInfoBroadcaster c' = frameInfoBroadcaster c \<and> isParentDocument c' = isParentDocument c \<and>
         keyHandlers c' = keyHandlers c \<and> unbindToggleSidePanel c' = unbindToggleSidePanel c \<and>
         videoInterval c' = videoInterval c \<and>
         (\<exists>ds. calls c' = calls c @ ds \<and> (\<forall>x\<in>set ds. \<not> bindingCall x \<and> \<not> toggleCall x))"
proof (cases "isParentDocument c \<and> sender request = Some ''asbplayer-extension-to-video''")
  case False
  then have "messageListener env request c = (ReturnsUndefined, c)"
    by (auto simp: messageListener_def)
  then show ?thesis by (simp add: c'_def)
next
  case root: True
  show ?thesis
  proof (cases "command (message request) = ''crop-and-resize''")
    case True
    show ?thesis
    proof (cases "translateRect (message request) c")
      case (Inl e)
      then show ?thesis using root True by (simp add: c'_def messageListener_crop)
    next
      case (Inr p)
      obtain r c1 where p: "p = (r, c1)" by (cases p)
      have c': "c' = floating (thenP (cropAndResizeP env (maxWidth (message request)) (maxHeight (message request))
                          r (dataUrl (message request))) (\<lambda>dataUrl. sendResponse dataUrl)) c1"
        using root True Inr p by (simp add: c'_def messageListener_crop)
      from translateRect_frame[OF Inr[unfolded p]] show ?thesis
        unfolding c' by (simp add: crop_chain_frame crop_chain_calls)
    qed
  next
    case False
    show ?thesis
    proof (cases "command (message request) = ''copy-to-clipboard''")
      case True
      then have "c' = floating
           (thenP (thenP (fetchP env (dataUrl (message request))) (\<lambda>response. blobP response))
              (\<lambda>blob. throwingCall (clipboardWrite env [(blob_type blob, blob)])
                 (\<lambda>written. catchP (clipboardWriteP written [(blob_type blob, blob)]) consoleError))) c"
        using root by (simp add: c'_def messageListener_def)
      then show ?thesis by (simp add: copy_chain_frame)
    next
      case nc: False
      then show ?thesis
        using root False by (simp add: c'_def messageListener_def bindToggleSidePanel_def Let_def)
    qed
  qed
qed

lemma addLoop_calls:
  "\<exists>ds. calls (addLoop vs c) = calls c @ ds \<and> (\<forall>x\<in>set ds. \<not> toggleCall x)"
proof (induction vs arbitrary: c)
  case Nil
  show ?case by simp
next
  case (Cons v vs)
  let ?b = "\<lparr>video = node v, syncAvailable = subSyncAvailable c,
             bindingFrameId = map_option broadcasterFrameId (frameInfoBroadcaster c),
             oid = nextBinding c\<rparr>"
  let ?c' = "c\<lparr>nextBinding := Suc (nextBinding c), calls := calls c @ [BindingBind (nextBinding c)],
               bindings := bindings c @ [?b]\<rparr>"
  have "addLoop (v # vs) c = addLoop vs ?c' \<or> addLoop (v # vs) c = addLoop vs c"
    by (simp add: Let_def)
  then show ?case
  proof
    assume eq: "addLoop (v # vs) c = addLoop vs ?c'"
    from Cons.IH[of ?c'] obtain ds where "calls (addLoop vs ?c') = calls ?c' @ ds" "\<forall>x\<in>set ds. \<not> toggleCall x"
      by blast
    then have "calls (addLoop vs ?c') = calls c @ (BindingBind (nextBinding c) # ds)
        \<and> (\<forall>x\<in>set (BindingBind (nextBinding c) # ds). \<not> toggleCall x)"
      by simp
    then show ?thesis unfolding eq by blast
  next
    assume eq: "addLoop (v # vs) c = addLoop vs c"
    show ?thesis unfolding eq by (rule Cons.IH)
  qed
qed

lemma removeLoop_calls:
  "\<exists>ds. calls (removeLoop vs k c) = calls c @ ds \<and> (\<forall>x\<in>set ds. \<not> toggleCall x)"
proof (induction k arbitrary: c)
  case 0
  show ?case by simp
next
  case (Suc i)
  let ?c' = "c\<lparr>bindings := take i (bindings c) @ drop (Suc i) (bindings c),
                   calls := calls c @ [BindingUnbind (oid (bindings c ! i))]\<rparr>"
  have "removeLoop vs (Suc i) c = removeLoop vs i ?c' \<or> removeLoop vs (Suc i) c = removeLoop vs i c"
    by (simp add: Let_def)
  then show ?case
  proof
    assume eq: "removeLoop vs (Suc i) c = removeLoop vs i ?c'"
    from Suc.IH[of ?c'] obtain ds where "calls (removeLoop vs i ?c') = calls ?c' @ ds" "\<forall>x\<in>set ds. \<not> toggleCall x"
      by blast
    then have "calls (removeLoop vs i ?c') = calls c @ (BindingUnbind (oid (bindings c ! i)) # ds)
        \<and> (\<forall>x\<in>set (BindingUnbind (oid (bindings c ! i)) # ds). \<not> toggleCall x)"
      by simp
    then show ?thesis unfolding eq by blast
  next
    assume eq: "removeLoop vs (Suc i) c = removeLoop vs i c"
    show ?thesis unfolding eq by (rule Suc.IH)
  qed
qed

lemma bindToVideoElements_frame:
  "page (bindToVideoElements vs c) = page c \<and>
   isParentDocument (bindToVideoElements vs c) = isParentDocument c \<and>
   unbindToggleSidePanel (bindToVideoElements vs c) = unbindToggleSidePanel c \<and>
   keyHandlers (bindToVideoElements vs c) = keyHandlers c \<and>
   videoInterval (bindToVideoElements vs c) = videoInterval c \<and>
   frameInfoBroadcaster (bindToVideoElements vs c) =
     map_option (if bindings (bindToVideoElements vs c) = [] then broadcaster_unbind else broadcaster_bind)
       (frameInfoBroadcaster c)"
  by (simp add: bindToVideoElements_def Let_def removeLoop_frame addLoop_frame)

lemma bindToVideoElements_calls:
  "\<exists>ds. calls (bindToVideoElements vs c) = calls c @ ds \<and> (\<forall>x\<in>set ds. \<not> toggleCall x)"
proof -
  obtain ds where ds: "calls (addLoop vs c) = calls c @ ds" "\<forall>x\<in>set ds. \<not> toggleCall x"
    using addLoop_calls by blast
  obtain es where es: "calls (removeLoop vs (length (bindings (addLoop vs c))) (addLoop vs c))
      = calls (addLoop vs c) @ es" "\<forall>x\<in>set es. \<not> toggleCall x"
    using removeLoop_calls by blast
  have "calls (bindToVideoElements vs c) = calls c @ (ds @ es)"
    using ds es by (simp add: bindToVideoElements_def Let_def)
  moreover have "\<forall>x\<in>set (ds @ es). \<not> toggleCall x"
    using ds es by auto
  ultimately show ?thesis by blast
qed

section \<open>Invariants along the life of a page context\<close>

subsection \<open>Binding and unbinding\<close>

lemma count_list_distinct: "distinct xs \<Longrightarrow> count_list xs x = (if x \<in> set xs then 1 else 0)"
  by (induction xs) auto

lemma count_list_other:
  "\<forall>x\<in>set ds. \<not> bindingCall x \<Longrightarrow>
     count_list ds (BindingBind i) = 0 \<and> count_list ds (BindingUnbind i) = 0"
  by (induction ds) auto

lemma count_list_unbinds:
  "count_list (map (\<lambda>b. BindingUnbind (oid b)) bs) (BindingUnbind i) = count_list (map oid bs) i
   \<and> count_list (map (\<lambda>b. BindingUnbind (oid b)) bs) (BindingBind i) = 0"
  by (induction bs) auto

lemma lifecycle_inv_add:
  assumes "lifecycle_inv bs n cs" and "oid b = n"
  shows "lifecycle_inv (bs @ [b]) (Suc n) (cs @ [BindingBind n])"
  using assms unfolding lifecycle_inv_def by (auto simp: less_Suc_eq)

lemma lifecycle_inv_remove:
  assumes "lifecycle_inv bs n cs" and "i < length bs"
  shows "lifecycle_inv (take i bs @ drop (Suc i) bs) n (cs @ [BindingUnbind (oid (bs ! i))])"
proof -
  have bs: "bs = take i bs @ bs ! i # drop (Suc i) bs"
    using assms(2) by (rule id_take_nth_drop)
  define xs ys b where "xs = take i bs" and "ys = drop (Suc i) bs" and "b = bs ! i"
  with bs have eq: "bs = xs @ b # ys" by simp
  from assms(1) show ?thesis
    unfolding xs_def[symmetric] ys_def[symmetric] b_def[symmetric]
    unfolding eq lifecycle_inv_def
    by auto
qed

lemma lifecycle_inv_unload:
  assumes "lifecycle_inv bs n cs"
  shows "lifecycle_inv [] n (cs @ map (\<lambda>b. BindingUnbind (oid b)) bs)"
  using assms unfolding lifecycle_inv_def
  by (auto simp: count_list_unbinds count_list_distinct)

lemma lifecycle_inv_other:
  assumes "lifecycle_inv bs n cs" and "\<forall>x\<in>set ds. \<not> bindingCall x"
  shows "lifecycle_inv bs n (cs @ ds)"
  using assms(1) count_list_other[OF assms(2)] unfolding lifecycle_inv_def by simp

lemma bindings_inv_updates [simp]:
  "bindings_inv (c\<lparr>videoInterval := a\<rparr>) = bindings_inv c"
  "bindings_inv (c\<lparr>listenerAdded := b\<rparr>) = bindings_inv c"
  "bindings_inv (c\<lparr>pendingKeyBindSetReads := n\<rparr>) = bindings_inv c"
  "bindings_inv (c\<lparr>frameInfoBroadcaster := fb\<rparr>) = bindings_inv c"
  "bindings_inv (c\<lparr>frameInfoListener := fl\<rparr>) = bindings_inv c"
  by (simp_all add: bindings_inv_def)

lemma addLoop_bindings_inv: "bindings_inv c \<Longrightarrow> bindings_inv (addLoop vs c)"
proof (induction vs arbitrary: c)
  case Nil
  then show ?case by simp
next
  case (Cons v vs)
  let ?b = "\<lparr>video = node v, syncAvailable = subSyncAvailable c,
             bindingFrameId = map_option broadcasterFrameId (frameInfoBroadcaster c),
             oid = nextBinding c\<rparr>"
  let ?c' = "c\<lparr>nextBinding := Suc (nextBinding c), calls := calls c @ [BindingBind (nextBinding c)],
               bindings := bindings c @ [?b]\<rparr>"
  have "addLoop (v # vs) c = addLoop vs ?c' \<or> addLoop (v # vs) c = addLoop vs c"
    by (simp add: Let_def)
  then show ?case
  proof
    assume eq: "addLoop (v # vs) c = addLoop vs ?c'"
    have "bindings_inv ?c'"
      using Cons.prems lifecycle_inv_add[of "bindings c" "nextBinding c" "calls c" ?b]
      by (simp add: bindings_inv_def)
    then show ?thesis unfolding eq by (rule Cons.IH)
  next
    assume eq: "addLoop (v # vs) c = addLoop vs c"
    show ?thesis unfolding eq using Cons.prems by (rule Cons.IH)
  qed
qed

lemma removeLoop_bindings_inv:
  "bindings_inv c \<Longrightarrow> k \<le> length (bindings c) \<Longrightarrow> bindings_inv (removeLoop vs k c)"
proof (induction k arbitrary: c)
  case 0
  then show ?case by simp
next
  case (Suc i)
  let ?c' = "c\<lparr>bindings := take i (bindings c) @ drop (Suc i) (bindings c),
                   calls := calls c @ [BindingUnbind (oid (bindings c ! i))]\<rparr>"
  have "removeLoop vs (Suc i) c = removeLoop vs i ?c' \<or> removeLoop vs (Suc i) c = removeLoop vs i c"
    by (simp add: Let_def)
  then show ?case
  proof
    assume eq: "removeLoop vs (Suc i) c = removeLoop vs i ?c'"
    have "bindings_inv ?c'"
      using Suc.prems lifecycle_inv_remove[of "bindings c" "nextBinding c" "calls c" i]
      by (simp add: bindings_inv_def)
    moreover have "i \<le> length (bindings ?c')"
      using Suc.prems by simp
    ultimately show ?thesis unfolding eq by (rule Suc.IH)
  next
    assume eq: "removeLoop vs (Suc i) c = removeLoop vs i c"
    show ?thesis unfolding eq using Suc.prems by (intro Suc.IH) simp_all
  qed
qed

lemma bindToVideoElements_bindings_inv:
  assumes "bindings_inv c"
  shows "bindings_inv (bindToVideoElements vs c)"
proof -
  have "bindings_inv (removeLoop vs (length (bindings (addLoop vs c))) (addLoop vs c))"
    using assms by (intro removeLoop_bindings_inv addLoop_bindings_inv) simp_all
  then show ?thesis
    by (simp add: bindToVideoElements_def Let_def)
qed

lemma messageListener_bindings_inv:
  assumes "bindings_inv c"
  shows "bindings_inv (snd (messageListener env request c))"
proof -
  from messageListener_frame[of env request c]
  obtain ds where "calls (snd (messageListener env request c)) = calls c @ ds"
      "\<forall>x\<in>set ds. \<not> bindingCall x"
      "bindings (snd (messageListener env request c)) = bindings c"
      "nextBinding (snd (messageListener env request c)) = nextBinding c"
    by blast
  then show ?thesis
    using assms lifecycle_inv_other[of "bindings c" "nextBinding c" "calls c" ds]
    by (simp add: bindings_inv_def)
qed

lemma callUnbindToggleSidePanel_bindings_inv:
  assumes "bindings_inv c"
  shows "bindings_inv (callUnbindToggleSidePanel c)"
  using assms lifecycle_inv_other[of "bindings c" "nextBinding c" "calls c" "[ToggleUnbind h]" for h]
  by (auto simp: callUnbindToggleSidePanel_def keyBinder_unbind_def bindings_inv_def split: option.splits)

lemma keyBindSetRead_bindings_inv:
  assumes "bindings_inv c"
  shows "bindings_inv (keyBindSetRead ks c)"
proof -
  let ?c1 = "callUnbindToggleSidePanel c"
  have "lifecycle_inv (bindings ?c1) (nextBinding ?c1) (calls ?c1 @ [ToggleBind (nextHandler ?c1)])"
    using callUnbindToggleSidePanel_bindings_inv[OF assms]
    by (intro lifecycle_inv_other) (simp_all add: bindings_inv_def)
  then show ?thesis
    by (simp add: keyBindSetRead_def keyBinder_bindToggleSidePanel_def Let_def bindings_inv_def)
qed

lemma keyPressed_bindings_inv:
  assumes "bindings_inv c"
  shows "bindings_inv (keyPressed c)"
proof -
  have "lifecycle_inv (bindings c) (nextBinding c)
          (calls c @ map (\<lambda>(h, ks). ToggleSidePanelSent h) (keyHandlers c))"
    using assms by (intro lifecycle_inv_other) (auto simp: bindings_inv_def)
  then show ?thesis by (simp add: keyPressed_def bindings_inv_def)
qed

lemma frameAnnounced_bindings_inv:
  assumes "bindings_inv c"
  shows "bindings_inv (frameAnnounced fid iframe c)"
  using assms by (simp add: frameAnnounced_def bindings_inv_def split: option.splits)

lemma beforeunload_bindings_inv:
  assumes "bindings_inv c"
  shows "bindings_inv (beforeunload c)"
proof -
  let ?c5 = "c\<lparr>calls := calls c @ map (\<lambda>b. BindingUnbind (oid b)) (bindings c),
               bindings := [],
               videoInterval := False,
               frameInfoListener := map_option (\<lambda>l. l\<lparr>listening := False\<rparr>) (frameInfoListener c),
               frameInfoBroadcaster := map_option broadcaster_unbind (frameInfoBroadcaster c)\<rparr>"
  have "bindings_inv ?c5"
    using lifecycle_inv_unload[of "bindings c" "nextBinding c" "calls c"] assms
    by (simp add: bindings_inv_def)
  then have "bindings_inv (callUnbindToggleSidePanel ?c5)"
    by (rule callUnbindToggleSidePanel_bindings_inv)
  then have "bindings_inv ((callUnbindToggleSidePanel ?c5)\<lparr>listenerAdded := False\<rparr>)"
    by (simp add: bindings_inv_def)
  moreover have "beforeunload c = (callUnbindToggleSidePanel ?c5)\<lparr>listenerAdded := False\<rparr>"
    by (simp add: beforeunload_def Let_def)
  ultimately show ?thesis by simp
qed

lemma step_bindings_inv: "bindings_inv c \<Longrightarrow> bindings_inv (step c e)"
proof (cases e)
  case (KeyBindSetRead ks)
  assume "bindings_inv c"
  then have "bindings_inv (c\<lparr>pendingKeyBindSetReads := pendingKeyBindSetReads c - 1\<rparr>)"
    by (simp add: bindings_inv_def)
  then have "bindings_inv (keyBindSetRead ks (c\<lparr>pendingKeyBindSetReads := pendingKeyBindSetReads c - 1\<rparr>))"
    by (rule keyBindSetRead_bindings_inv)
  with \<open>bindings_inv c\<close> show ?thesis using KeyBindSetRead by simp
qed (simp_all add: bindToVideoElements_bindings_inv messageListener_bindings_inv
       keyPressed_bindings_inv frameAnnounced_bindings_inv beforeunload_bindings_inv)

lemma bind_bindings_inv: "bindings_inv (bind isParent pg fid vs)"
proof -
  have "bindings_inv (initialContext isParent pg fid :: ('a, 'b) page_context)"
    by (simp add: bindings_inv_def lifecycle_inv_def initialContext_def)
  then have "bindings_inv (bindToVideoElements vs (initialContext isParent pg fid :: ('a, 'b) page_context))"
    by (rule bindToVideoElements_bindings_inv)
  then show ?thesis
    by (cases isParent) (simp_all add: bind_def Let_def bindToggleSidePanel_def)
qed

lemma run_snoc: "run c (es @ [e]) = step (run c es) e"
  by (simp add: run_def)

lemma run_bindings_inv: "bindings_inv (run (bind isParent pg fid vs) events)"
  by (induction events rule: rev_induct)
     (simp_all add: run_snoc step_bindings_inv bind_bindings_inv, simp add: run_def bind_bindings_inv)

subsection \<open>After the unload handler\<close>

lemma callUnbindToggleSidePanel_frame:
  "bindings (callUnbindToggleSidePanel c) = bindings c \<and>
   videoInterval (callUnbindToggleSidePanel c) = videoInterval c \<and>
   page (callUnbindToggleSidePanel c) = page c \<and>
   isParentDocument (callUnbindToggleSidePanel c) = isParentDocument c \<and>
   frameInfoBroadcaster (callUnbindToggleSidePanel c) = frameInfoBroadcaster c \<and>
   unbindToggleSidePanel (callUnbindToggleSidePanel c) = unbindToggleSidePanel c \<and>
   nextHandler (callUnbindToggleSidePanel c) = nextHandler c"
  by (simp add: callUnbindToggleSidePanel_def keyBinder_unbind_def split: option.splits)

lemma keyBindSetRead_frame:
  "bindings (keyBindSetRead ks c) = bindings c \<and>
   videoInterval (keyBindSetRead ks c) = videoInterval c \<and>
   page (keyBindSetRead ks c) = page c \<and>
   isParentDocument (keyBindSetRead ks c) = isParentDocument c \<and>
   frameInfoBroadcaster (keyBindSetRead ks c) = frameInfoBroadcaster c"
  by (simp add: keyBindSetRead_def keyBinder_bindToggleSidePanel_def Let_def callUnbindToggleSidePanel_frame)

lemma frameAnnounced_frame:
  "bindings (frameAnnounced fid iframe c) = bindings c \<and>
   videoInterval (frameAnnounced fid iframe c) = videoInterval c \<and>
   page (frameAnnounced fid iframe c) = page c \<and>
   isParentDocument (frameAnnounced fid iframe c) = isParentDocument c \<and>
   frameInfoBroadcaster (frameAnnounced fid iframe c) = frameInfoBroadcaster c \<and>
   keyHandlers (frameAnnounced fid iframe c) = keyHandlers c \<and>
   unbindToggleSidePanel (frameAnnounced fid iframe c) = unbindToggleSidePanel c \<and>
   calls (frameAnnounced fid iframe c) = calls c"
  by (simp add: frameAnnounced_def split: option.splits)

lemma beforeunload_frame:
  "bindings (beforeunload c) = [] \<and>
   videoInterval (beforeunload c) = False \<and>
   page (beforeunload c) = page c \<and>
   isParentDocument (beforeunload c) = isParentDocument c \<and>
   frameInfoBroadcaster (beforeunload c) = map_option broadcaster_unbind (frameInfoBroadcaster c)"
  by (simp add: beforeunload_def Let_def callUnbindToggleSidePanel_frame)

lemma step_torn_down: "torn_down c \<Longrightarrow> torn_down (step c e)"
  by (cases e)
     (simp_all add: torn_down_def messageListener_frame keyBindSetRead_frame keyPressed_def
        frameAnnounced_frame beforeunload_frame)

lemma run_torn_down:
  "BeforeUnload \<in> set events \<Longrightarrow> torn_down (run c events)"
proof (induction events rule: rev_induct)
  case Nil
  then show ?case by simp
next
  case (snoc e es)
  show ?case
  proof (cases "e = BeforeUnload")
    case True
    then show ?thesis by (simp add: run_snoc torn_down_def beforeunload_frame)
  next
    case False
    with snoc.prems have "BeforeUnload \<in> set es" by simp
    then have "torn_down (run c es)" by (rule snoc.IH)
    then show ?thesis unfolding run_snoc by (rule step_torn_down)
  qed
qed

lemma count_list_mem: "x \<in> set xs \<longleftrightarrow> count_list xs x > 0"
  by (induction xs) auto

lemma addLoop_bindings_prefix: "\<exists>new. bindings (addLoop vs c) = bindings c @ new"
proof (induction vs arbitrary: c)
  case Nil
  show ?case by simp
next
  case (Cons v vs)
  let ?b = "\<lparr>video = node v, syncAvailable = subSyncAvailable c,
             bindingFrameId = map_option broadcasterFrameId (frameInfoBroadcaster c),
             oid = nextBinding c\<rparr>"
  let ?c' = "c\<lparr>nextBinding := Suc (nextBinding c), calls := calls c @ [BindingBind (nextBinding c)],
               bindings := bindings c @ [?b]\<rparr>"
  have "addLoop (v # vs) c = addLoop vs ?c' \<or> addLoop (v # vs) c = addLoop vs c"
    by (simp add: Let_def)
  then show ?case
  proof
    assume eq: "addLoop (v # vs) c = addLoop vs ?c'"
    from Cons.IH[of ?c'] obtain new where "bindings (addLoop vs ?c') = bindings ?c' @ new"
      by blast
    then have "bindings (addLoop vs ?c') = bindings c @ (?b # new)" by simp
    then show ?thesis unfolding eq by blast
  next
    assume eq: "addLoop (v # vs) c = addLoop vs c"
    show ?thesis unfolding eq by (rule Cons.IH)
  qed
qed

lemma addLoop_nextBinding: "nextBinding c \<le> nextBinding (addLoop vs c)"
proof (induction vs arbitrary: c)
  case Nil
  show ?case by simp
next
  case (Cons v vs)
  let ?b = "\<lparr>video = node v, syncAvailable = subSyncAvailable c,
             bindingFrameId = map_option broadcasterFrameId (frameInfoBroadcaster c),
             oid = nextBinding c\<rparr>"
  let ?c' = "c\<lparr>nextBinding := Suc (nextBinding c), calls := calls c @ [BindingBind (nextBinding c)],
               bindings := bindings c @ [?b]\<rparr>"
  have "addLoop (v # vs) c = addLoop vs ?c' \<or> addLoop (v # vs) c = addLoop vs c"
    by (simp add: Let_def)
  then show ?case
  proof
    assume eq: "addLoop (v # vs) c = addLoop vs ?c'"
    have "nextBinding ?c' \<le> nextBinding (addLoop vs ?c')" by (rule Cons.IH)
    then show ?thesis unfolding eq by simp
  next
    assume eq: "addLoop (v # vs) c = addLoop vs c"
    show ?thesis unfolding eq by (rule Cons.IH)
  qed
qed

lemma bindToVideoElements_nextBinding: "nextBinding c \<le> nextBinding (bindToVideoElements vs c)"
  by (simp add: bindToVideoElements_def Let_def removeLoop_frame addLoop_nextBinding)

lemma tick_keeps_present:
  assumes "b \<in> set (bindings c)" and "videoElementExists vs b"
  shows "b \<in> set (bindings (bindToVideoElements vs c))"
proof -
  obtain new where "bindings (addLoop vs c) = bindings c @ new"
    using addLoop_bindings_prefix by blast
  with assms show ?thesis
    by (simp add: bindToVideoElements_bindings)
qed

lemma tick_drops_stale:
  assumes "bindings_inv c" and "b \<in> set (bindings c)" and "\<not> videoElementExists vs b"
  shows "oid b \<notin> set (map oid (bindings (bindToVideoElements vs c)))"
proof
  assume "oid b \<in> set (map oid (bindings (bindToVideoElements vs c)))"
  then obtain b' where b': "b' \<in> set (bindings (addLoop vs c))" "videoElementExists vs b'"
      "oid b' = oid b"
    by (auto simp: bindToVideoElements_bindings)
  obtain new where "bindings (addLoop vs c) = bindings c @ new"
    using addLoop_bindings_prefix by blast
  with assms(2) have b: "b \<in> set (bindings (addLoop vs c))" by simp
  have "distinct (map oid (bindings (addLoop vs c)))"
    using addLoop_bindings_inv[OF assms(1), of vs]
    by (simp add: bindings_inv_def lifecycle_inv_def)
  then have "inj_on oid (set (bindings (addLoop vs c)))"
    by (simp add: distinct_map)
  with b b' have "b' = b" by (auto dest: inj_onD)
  with b'(2) assms(3) show False by simp
qed

lemma beforeunload_nextBinding: "nextBinding (beforeunload c) = nextBinding c"
  by (simp add: beforeunload_def Let_def callUnbindToggleSidePanel_def keyBinder_unbind_def
        split: option.splits)

lemma tracked_oid_bound:
  assumes "bindings_inv c" and "b \<in> set (bindings c)"
  shows "oid b < nextBinding c"
  using assms by (simp add: bindings_inv_def lifecycle_inv_def)

lemma unbind_count:
  assumes "bindings_inv c" and "i < nextBinding c"
  shows "count_list (calls c) (BindingUnbind i) = (if i \<in> set (map oid (bindings c)) then 0 else 1)"
  using assms by (simp add: bindings_inv_def lifecycle_inv_def)

lemma bound_iff_made:
  assumes "bindings_inv c"
  shows "BindingBind i \<in> set (calls c) \<longleftrightarrow> i < nextBinding c"
  using assms unfolding bindings_inv_def lifecycle_inv_def count_list_mem
  by (metis less_numeral_extra(1) less_numeral_extra(3))

text \<open>
  Claim C5. At every moment of a page context, whatever ticks, messages and other events
  came before: a Binding that is tracked has not been unbound. A discovery tick keeps
  it, still not unbound, when its element is in the document and valid; when the element
  is gone or no longer valid the tick calls \<open>unbind()\<close> on it once and drops it from the
  tracked list, so the unload handler will not meet it. The unload handler calls
  \<open>unbind()\<close> once on every Binding that is still tracked and empties the list.
  Altogether every Binding that was ever bound has been unbound once if it is no longer
  tracked and not at all if it is, and once the unload handler has run it has been
  unbound exactly once, whatever came after.
\<close>

theorem unbind_exactly_once:
  fixes events :: "('n::plus, 'k) page_event list" and c :: "('n, 'k) page_context"
    and isParent :: bool and pg :: "page_delegate option" and fid :: string
    and vs0 :: "video_element list"
  defines "c \<equiv> run (bind isParent pg fid vs0) events"
  shows "(\<forall>b\<in>set (bindings c).
            count_list (calls c) (BindingUnbind (oid b)) = 0 \<and>
            ((\<exists>v\<in>set vs. node v = video b \<and> hasValidVideoSource v) \<longrightarrow>
               b \<in> set (bindings (bindToVideoElements vs c)) \<and>
               count_list (calls (bindToVideoElements vs c)) (BindingUnbind (oid b)) = 0) \<and>
            (\<not> (\<exists>v\<in>set vs. node v = video b \<and> hasValidVideoSource v) \<longrightarrow>
               oid b \<notin> set (map oid (bindings (bindToVideoElements vs c))) \<and>
               count_list (calls (bindToVideoElements vs c)) (BindingUnbind (oid b)) = 1) \<and>
            bindings (beforeunload c) = [] \<and>
            count_list (calls (beforeunload c)) (BindingUnbind (oid b)) = 1)
       \<and> (\<forall>i. BindingBind i \<in> set (calls c) \<longrightarrow>
            count_list (calls c) (BindingUnbind i)
              = (if i \<in> set (map oid (bindings c)) then 0 else 1) \<and>
            (BeforeUnload \<in> set events \<longrightarrow> count_list (calls c) (BindingUnbind i) = 1))"
proof (intro conjI ballI allI impI)
  have inv: "bindings_inv c"
    unfolding c_def by (rule run_bindings_inv)
  have inv_tick: "bindings_inv (bindToVideoElements vs c)"
    using inv by (rule bindToVideoElements_bindings_inv)
  have inv_unload: "bindings_inv (beforeunload c)"
    using inv by (rule beforeunload_bindings_inv)
  {
    fix b assume b: "b \<in> set (bindings c)"
    have lt: "oid b < nextBinding c"
      using inv b by (rule tracked_oid_bound)
    show "count_list (calls c) (BindingUnbind (oid b)) = 0"
      using unbind_count[OF inv lt] b by simp
    have lt_tick: "oid b < nextBinding (bindToVideoElements vs c)"
      using lt bindToVideoElements_nextBinding[of c vs] by simp
    {
      assume "\<exists>v\<in>set vs. node v = video b \<and> hasValidVideoSource v"
      then have ex: "videoElementExists vs b" by (simp add: videoElementExists_iff)
      show kept: "b \<in> set (bindings (bindToVideoElements vs c))"
        using b ex by (rule tick_keeps_present)
      show "count_list (calls (bindToVideoElements vs c)) (BindingUnbind (oid b)) = 0"
        using unbind_count[OF inv_tick lt_tick] kept by simp
    }
    {
      assume "\<not> (\<exists>v\<in>set vs. node v = video b \<and> hasValidVideoSource v)"
      then have nex: "\<not> videoElementExists vs b" by (simp add: videoElementExists_iff)
      show dropped: "oid b \<notin> set (map oid (bindings (bindToVideoElements vs c)))"
        using inv b nex by (rule tick_drops_stale)
      show "count_list (calls (bindToVideoElements vs c)) (BindingUnbind (oid b)) = 1"
        using unbind_count[OF inv_tick lt_tick] dropped by simp
    }
    show empty: "bindings (beforeunload c) = []"
      by (simp add: beforeunload_frame)
    have "oid b < nextBinding (beforeunload c)"
      using lt by (simp add: beforeunload_nextBinding)
    from unbind_count[OF inv_unload this]
    show "count_list (calls (beforeunload c)) (BindingUnbind (oid b)) = 1"
      by (simp add: empty)
  }
  {
    fix i assume bound: "BindingBind i \<in> set (calls c)"
    then have lt: "i < nextBinding c"
      using bound_iff_made[OF inv] by simp
    show "count_list (calls c) (BindingUnbind i)
              = (if i \<in> set (map oid (bindings c)) then 0 else 1)"
      using inv lt by (rule unbind_count)
    {
      assume "BeforeUnload \<in> set events"
      then have "torn_down (run (bind isParent pg fid vs0) events)"
        by (rule run_torn_down)
      then have "bindings c = []"
        unfolding c_def by (simp add: torn_down_def)
      then show "count_list (calls c) (BindingUnbind i) = 1"
        using unbind_count[OF inv lt] by simp
    }
  }
qed

subsection \<open>The tracked set\<close>

lemma step_tracking_inv: "tracking_inv pg c \<Longrightarrow> tracking_inv pg (step c e)"
  by (cases e)
     (simp_all add: tracking_inv_def messageListener_frame keyBindSetRead_frame keyPressed_def
        frameAnnounced_frame beforeunload_frame bindToVideoElements_frame bindToVideoElements_distinct)

lemma bind_tracking_inv: "tracking_inv pg (bind isParent pg fid vs)"
proof -
  have "tracking_inv pg (initialContext isParent pg fid :: ('a, 'b) page_context)"
    by (simp add: tracking_inv_def initialContext_def)
  then have "tracking_inv pg (bindToVideoElements vs (initialContext isParent pg fid :: ('a, 'b) page_context))"
    by (simp add: tracking_inv_def bindToVideoElements_frame bindToVideoElements_distinct)
  then show ?thesis
    by (cases isParent) (simp_all add: bind_def Let_def bindToggleSidePanel_def tracking_inv_def)
qed

lemma run_tracking_inv: "tracking_inv pg (run (bind isParent pg fid vs) events)"
  by (induction events rule: rev_induct)
     (simp_all add: run_snoc step_tracking_inv, simp add: run_def bind_tracking_inv)

lemma bind_tracked: "tracked (bind isParent pg fid vs :: ('a, 'b) page_context) = eligibleVideos pg vs"
proof -
  have "tracked (bindToVideoElements vs (initialContext isParent pg fid :: ('a, 'b) page_context))
          = eligibleVideos pg vs"
    unfolding bindToVideoElements_tracked by (simp add: tracked_def initialContext_def)
  then show ?thesis
    by (cases isParent) (simp_all add: bind_def Let_def bindToggleSidePanel_def tracked_def)
qed

text \<open>
  Claim C1, as amended. After the startup pass and after every discovery tick, whatever
  happened to the page context before: no two tracked Bindings hold the same node, every
  tracked node is a valid video element of the document, and every valid video element
  that the page delegate does not exclude is tracked. Without a page delegate the tracked
  set is exactly the set of valid video elements. (Validity is \<open>hasValidVideoSource_iff\<close>:
  a direct source, or a child \<open>SOURCE\<close> element with one.)
\<close>

theorem discovery_reconciles:
  fixes events :: "('n::plus, 'k) page_event list"
  shows "distinct (map video (bindings (bind isParent pg fid vs0 :: ('n, 'k) page_context)))
       \<and> tracked (bind isParent pg fid vs0 :: ('n, 'k) page_context) \<subseteq> validVideos vs0
       \<and> eligibleVideos pg vs0 \<subseteq> tracked (bind isParent pg fid vs0 :: ('n, 'k) page_context)
       \<and> distinct (map video (bindings (bindToVideoElements vs (run (bind isParent pg fid vs0) events))))
       \<and> tracked (bindToVideoElements vs (run (bind isParent pg fid vs0) events)) \<subseteq> validVideos vs
       \<and> eligibleVideos pg vs \<subseteq> tracked (bindToVideoElements vs (run (bind isParent pg fid vs0) events))
       \<and> (pg = None \<longrightarrow>
            tracked (bind isParent pg fid vs0 :: ('n, 'k) page_context) = validVideos vs0 \<and>
            tracked (bindToVideoElements vs (run (bind isParent pg fid vs0) events)) = validVideos vs)"
proof -
  let ?start = "bind isParent pg fid vs0 :: ('n, 'k) page_context"
  let ?c = "run ?start events"
  have inv0: "tracking_inv pg ?start" by (rule bind_tracking_inv)
  have inv: "tracking_inv pg ?c" by (rule run_tracking_inv)
  have t0: "tracked ?start = eligibleVideos pg vs0" by (rule bind_tracked)
  have t: "tracked (bindToVideoElements vs ?c) = (tracked ?c \<inter> validVideos vs) \<union> eligibleVideos pg vs"
    using inv by (simp add: bindToVideoElements_tracked tracking_inv_def)
  have d0: "distinct (map video (bindings ?start))"
    using inv0 by (simp add: tracking_inv_def)
  have d: "distinct (map video (bindings (bindToVideoElements vs ?c)))"
    using inv by (simp add: tracking_inv_def bindToVideoElements_distinct)
  have s0: "eligibleVideos pg vs0 \<subseteq> validVideos vs0" and s: "eligibleVideos pg vs \<subseteq> validVideos vs"
    by (rule eligible_subset_valid)+
  show ?thesis
    using d0 d t0 t s0 s by (auto simp: eligible_no_page)
qed

subsection \<open>The broadcaster of a child frame\<close>

lemma bindToVideoElements_broadcaster_inv:
  assumes "\<not> isParentDocument c" and "frameInfoBroadcaster c \<noteq> None"
  shows "broadcaster_inv (bindToVideoElements vs c)"
  using assms
  by (auto simp: broadcaster_inv_def bindToVideoElements_frame broadcaster_bind_def broadcaster_unbind_def)

lemma step_broadcaster_inv: "broadcaster_inv c \<Longrightarrow> broadcaster_inv (step c e)"
proof (cases e)
  case (Tick vs)
  assume "broadcaster_inv c"
  then have "\<not> isParentDocument c" "frameInfoBroadcaster c \<noteq> None"
    by (auto simp: broadcaster_inv_def)
  then have "broadcaster_inv (bindToVideoElements vs c)"
    by (rule bindToVideoElements_broadcaster_inv)
  with \<open>broadcaster_inv c\<close> show ?thesis using Tick by simp
next
  case BeforeUnload
  assume "broadcaster_inv c"
  then show ?thesis using BeforeUnload
    by (auto simp: broadcaster_inv_def beforeunload_frame broadcaster_unbind_def)
qed (simp_all add: broadcaster_inv_def messageListener_frame keyBindSetRead_frame keyPressed_def
        frameAnnounced_frame)

lemma bind_broadcaster_inv: "broadcaster_inv (bind False pg fid vs)"
proof -
  have "broadcaster_inv (bindToVideoElements vs (initialContext False pg fid :: ('a, 'b) page_context))"
    by (rule bindToVideoElements_broadcaster_inv) (simp_all add: initialContext_def)
  then show ?thesis
    by (simp add: bind_def Let_def broadcaster_inv_def)
qed

text \<open>
  Claim C7. In a child document the broadcaster exists and, after the startup pass, after
  every discovery tick and after every other event, it is broadcasting if and only if
  the list of tracked Bindings is not empty.
\<close>

theorem child_broadcasts_iff_bound:
  "\<not> isParentDocument (run (bind False pg fid vs) events) \<and>
   (\<exists>fb. frameInfoBroadcaster (run (bind False pg fid vs) events) = Some fb \<and>
         (broadcasting fb \<longleftrightarrow> bindings (run (bind False pg fid vs) events) \<noteq> []))"
proof -
  have "broadcaster_inv (run (bind False pg fid vs) events)"
    by (induction events rule: rev_induct)
       (simp_all add: run_snoc step_broadcaster_inv, simp add: run_def bind_broadcaster_inv)
  then show ?thesis by (simp add: broadcaster_inv_def)
qed

subsection \<open>The side-panel key binding\<close>

lemma monitorStep_other: "\<not> toggleCall x \<Longrightarrow> monitorStep m x = m"
  by (cases m; cases x) simp_all

lemma monitor_other: "\<forall>x\<in>set ds. \<not> toggleCall x \<Longrightarrow> foldl monitorStep m ds = m"
  by (induction ds arbitrary: m) (simp_all add: monitorStep_other)

lemma toggleMonitor_other:
  "\<forall>x\<in>set ds. \<not> toggleCall x \<Longrightarrow> toggleMonitor (cs @ ds) = toggleMonitor cs"
  by (simp add: toggleMonitor_def monitor_other)

lemma toggleMonitor_snoc: "toggleMonitor (cs @ [x]) = monitorStep (toggleMonitor cs) x"
  by (simp add: toggleMonitor_def)

lemma toggle_inv_cases:
  assumes "toggle_inv c"
  obtains "keyHandlers c = []" "toggleMonitor (calls c) = Installed None"
  | h ks where "keyHandlers c = [(h, ks)]" "unbindToggleSidePanel c = Some h"
      "toggleMonitor (calls c) = Installed (Some h)"
proof (cases "keyHandlers c")
  case Nil
  with assms that(1) show ?thesis by (simp add: toggle_inv_def activeHandler_def)
next
  case (Cons p rest)
  obtain h ks where p: "p = (h, ks)" by (cases p)
  from assms Cons have "rest = []" by (simp add: toggle_inv_def)
  with assms Cons p that(2)[of h ks] show ?thesis
    by (simp add: toggle_inv_def activeHandler_def)
qed

lemma callUnbindToggleSidePanel_released:
  assumes "toggle_inv c"
  shows "keyHandlers (callUnbindToggleSidePanel c) = [] \<and>
         toggleMonitor (calls (callUnbindToggleSidePanel c)) = Installed None"
  using assms
proof (cases rule: toggle_inv_cases)
  case 1
  then show ?thesis
    by (simp add: callUnbindToggleSidePanel_def keyBinder_unbind_def toggleMonitor_snoc split: option.splits)
next
  case (2 h ks)
  then show ?thesis
    by (simp add: callUnbindToggleSidePanel_def keyBinder_unbind_def toggleMonitor_snoc)
qed

lemma toggle_inv_updates [simp]:
  "toggle_inv (c\<lparr>videoInterval := a\<rparr>) = toggle_inv c"
  "toggle_inv (c\<lparr>listenerAdded := b\<rparr>) = toggle_inv c"
  "toggle_inv (c\<lparr>pendingKeyBindSetReads := n\<rparr>) = toggle_inv c"
  "toggle_inv (c\<lparr>frameInfoBroadcaster := fb\<rparr>) = toggle_inv c"
  "toggle_inv (c\<lparr>frameInfoListener := fl\<rparr>) = toggle_inv c"
  "toggle_inv (c\<lparr>bindings := bs\<rparr>) = toggle_inv c"
  by (simp_all add: toggle_inv_def activeHandler_def)

lemma toggle_inv_calls:
  assumes "toggle_inv c" and "\<forall>x\<in>set ds. \<not> toggleCall x"
  shows "toggle_inv (c\<lparr>calls := calls c @ ds\<rparr>)"
  using assms by (simp add: toggle_inv_def activeHandler_def toggleMonitor_other)

lemma toggle_inv_transfer:
  assumes "toggle_inv c"
    and "keyHandlers c' = keyHandlers c"
    and "unbindToggleSidePanel c' = unbindToggleSidePanel c"
    and "calls c' = calls c @ ds" and "\<forall>x\<in>set ds. \<not> toggleCall x"
  shows "toggle_inv c'"
  using assms by (simp add: toggle_inv_def activeHandler_def toggleMonitor_other)

lemma keyBindSetRead_toggle_inv:
  assumes "toggle_inv c"
  shows "toggle_inv (keyBindSetRead ks c)"
  using callUnbindToggleSidePanel_released[OF assms]
  by (simp add: keyBindSetRead_def keyBinder_bindToggleSidePanel_def Let_def toggle_inv_def activeHandler_def toggleMonitor_snoc)

lemma keyPressed_toggle_inv:
  assumes "toggle_inv c"
  shows "toggle_inv (keyPressed c)"
  using assms
proof (cases rule: toggle_inv_cases)
  case 1
  with assms show ?thesis by (simp add: keyPressed_def toggle_inv_def activeHandler_def)
next
  case (2 h ks)
  with assms show ?thesis
    by (simp add: keyPressed_def toggle_inv_def activeHandler_def toggleMonitor_snoc)
qed

lemma beforeunload_toggle_inv:
  assumes "toggle_inv c"
  shows "toggle_inv (beforeunload c)"
proof -
  let ?c5 = "c\<lparr>calls := calls c @ map (\<lambda>b. BindingUnbind (oid b)) (bindings c),
               bindings := [],
               videoInterval := False,
               frameInfoListener := map_option (\<lambda>l. l\<lparr>listening := False\<rparr>) (frameInfoListener c),
               frameInfoBroadcaster := map_option broadcaster_unbind (frameInfoBroadcaster c)\<rparr>"
  have "toggle_inv (c\<lparr>calls := calls c @ map (\<lambda>b. BindingUnbind (oid b)) (bindings c)\<rparr>)"
    using assms by (rule toggle_inv_calls) auto
  then have inv5: "toggle_inv ?c5" by simp
  have eq: "beforeunload c = (callUnbindToggleSidePanel ?c5)\<lparr>listenerAdded := False\<rparr>"
    by (simp add: beforeunload_def Let_def)
  have u: "unbindToggleSidePanel (callUnbindToggleSidePanel ?c5) = unbindToggleSidePanel ?c5"
    by (simp add: callUnbindToggleSidePanel_frame)
  show ?thesis
    unfolding eq using callUnbindToggleSidePanel_released[OF inv5]
    by (simp add: toggle_inv_def activeHandler_def)
qed

lemma step_toggle_inv: "toggle_inv c \<Longrightarrow> toggle_inv (step c e)"
proof (cases e)
  case (Tick vs)
  assume inv: "toggle_inv c"
  obtain ds where ds: "calls (bindToVideoElements vs c) = calls c @ ds" "\<forall>x\<in>set ds. \<not> toggleCall x"
    using bindToVideoElements_calls by blast
  have "toggle_inv (bindToVideoElements vs c)"
    by (rule toggle_inv_transfer[OF inv _ _ ds]) (simp_all add: bindToVideoElements_frame)
  with inv show ?thesis using Tick by simp
next
  case (Message env request)
  assume inv: "toggle_inv c"
  from messageListener_frame[of env request c]
  obtain ds where ds: "calls (snd (messageListener env request c)) = calls c @ ds"
      "\<forall>x\<in>set ds. \<not> toggleCall x"
    and same: "keyHandlers (snd (messageListener env request c)) = keyHandlers c"
      "unbindToggleSidePanel (snd (messageListener env request c)) = unbindToggleSidePanel c"
    by blast
  have "toggle_inv (snd (messageListener env request c))"
    by (rule toggle_inv_transfer[OF inv same ds])
  with inv show ?thesis using Message by simp
next
  case (KeyBindSetRead ks)
  assume inv: "toggle_inv c"
  then have "toggle_inv (c\<lparr>pendingKeyBindSetReads := pendingKeyBindSetReads c - 1\<rparr>)" by simp
  then have "toggle_inv (keyBindSetRead ks (c\<lparr>pendingKeyBindSetReads := pendingKeyBindSetReads c - 1\<rparr>))"
    by (rule keyBindSetRead_toggle_inv)
  with inv show ?thesis using KeyBindSetRead by simp
next
  case KeyPressed
  assume "toggle_inv c"
  then show ?thesis using KeyPressed by (simp add: keyPressed_toggle_inv)
next
  case (FrameAnnounced fid iframe)
  assume "toggle_inv c"
  then show ?thesis using FrameAnnounced
    by (simp add: toggle_inv_def activeHandler_def frameAnnounced_frame)
next
  case BeforeUnload
  assume "toggle_inv c"
  then show ?thesis using BeforeUnload by (simp add: beforeunload_toggle_inv)
qed

lemma bind_toggle_inv: "toggle_inv (bind isParent pg fid vs)"
proof -
  let ?start = "initialContext isParent pg fid :: ('a, 'b) page_context"
  have start: "toggle_inv ?start"
    by (simp add: toggle_inv_def activeHandler_def toggleMonitor_def initialContext_def)
  obtain ds where ds: "calls (bindToVideoElements vs ?start) = calls ?start @ ds" "\<forall>x\<in>set ds. \<not> toggleCall x"
    using bindToVideoElements_calls by blast
  have "toggle_inv (bindToVideoElements vs ?start)"
    by (rule toggle_inv_transfer[OF start _ _ ds]) (simp_all add: bindToVideoElements_frame)
  then show ?thesis
    by (cases isParent) (simp_all add: bind_def Let_def bindToggleSidePanel_def)
qed

lemma run_toggle_inv: "toggle_inv (run (bind isParent pg fid vs) events)"
  by (induction events rule: rev_induct)
     (simp_all add: run_snoc step_toggle_inv, simp add: run_def bind_toggle_inv)

text \<open>
  Claim C6. Whatever the order in which settings updates arrive and pending reads of the
  key bind set deliver, at most one toggle handler is installed at any time, and the
  recorded calls pass the monitor: a handler is installed only when the one before it has
  been released, and a handler sends \<open>toggle-side-panel\<close> only while it is the installed
  one.
\<close>

theorem one_toggle_handler:
  "length (keyHandlers (run (bind isParent pg fid vs) events)) \<le> 1 \<and>
   toggleMonitor (calls (run (bind isParent pg fid vs) events))
     = Installed (activeHandler (run (bind isParent pg fid vs) events))"
  using run_toggle_inv[of isParent pg fid vs events] by (simp add: toggle_inv_def)

section \<open>The properties on the examples\<close>

lemmas example_defs =
  movie_def clip_def blank_def exampleFrame_def exampleRoot_def exampleChild_def exampleEnv_def
  cropRequest_def

lemmas model_defs =
  run_def bind_def initialContext_def bindToVideoElements_def Let_def hasValidVideoSource_def
  pageShouldIgnore_def beforeunload_def callUnbindToggleSidePanel_def keyBinder_unbind_def broadcaster_bind_def
  broadcaster_unbind_def bindToggleSidePanel_def frameAnnounced_def keyBindSetRead_def keyBinder_bindToggleSidePanel_def keyPressed_def
  messageListener_def translateRect_def lookupIframe_def deref_def floating_def thenP_def catchP_def
  fetchP_def blobP_def throwingCall_def clipboardWriteP_def consoleError_def cropAndResizeP_def sendResponse_def

text \<open>
  Claim C1 as it was stated fails: a valid video element that the page delegate excludes
  is not tracked after the startup pass.
\<close>

theorem tracked_misses_ignored_video:
  "hasValidVideoSource advert \<and> validVideos [advert] = {3} \<and>
   tracked (bind True (Some skipAdverts) [] [advert] :: (int, string) page_context) = {}"
  by (simp add: tracked_def validVideos_def model_defs advert_def skipAdverts_def)

text \<open>
  The amended claim C1 on a child document without a page delegate, at startup and after
  two ticks.
\<close>

theorem discovery_reconciles_witness:
  "tracked (bindToVideoElements [clip, blank]
      (run (bind False None ''frame-1'' [movie] :: (int, string) page_context) [Tick [movie, clip]]))
     = validVideos [clip, blank]
   \<and> validVideos [clip, blank] = {1}
   \<and> distinct (map video (bindings (bindToVideoElements [clip, blank]
      (run (bind False None ''frame-1'' [movie] :: (int, string) page_context) [Tick [movie, clip]]))))
   \<and> tracked (bind False None ''frame-1'' [movie] :: (int, string) page_context) = validVideos [movie]
   \<and> validVideos [movie] = {0}"
proof -
  note t = discovery_reconciles [of False None "''frame-1''" "[movie]" "[clip, blank]" "[Tick [movie, clip]]"]
  from t have a: "tracked (bindToVideoElements [clip, blank]
      (run (bind False None ''frame-1'' [movie] :: (int, string) page_context) [Tick [movie, clip]]))
     = validVideos [clip, blank]"
    by blast
  from t have b: "distinct (map video (bindings (bindToVideoElements [clip, blank]
      (run (bind False None ''frame-1'' [movie] :: (int, string) page_context) [Tick [movie, clip]]))))"
    by blast
  from t have c: "tracked (bind False None ''frame-1'' [movie] :: (int, string) page_context) = validVideos [movie]"
    by blast
  have d: "validVideos [clip, blank] = {1}" "validVideos [movie] = {0}"
    by (simp_all add: validVideos_def hasValidVideoSource_def example_defs)
  from a b c d show ?thesis by blast
qed

text \<open>
  Claim C3 on the child document, and on the root document with an envelope of the
  page's own sender.
\<close>

theorem messageListener_gate_witness:
  "\<not> isParentDocument exampleChild
   \<and> messageListener exampleEnv (cropRequest None) exampleChild = (ReturnsUndefined, exampleChild)
   \<and> isParentDocument exampleRoot
   \<and> sender ((cropRequest None)\<lparr>sender := Some ''asbplayer-video-tab''\<rparr>)
        \<noteq> Some ''asbplayer-extension-to-video''
   \<and> messageListener exampleEnv ((cropRequest None)\<lparr>sender := Some ''asbplayer-video-tab''\<rparr>) exampleRoot
        = (ReturnsUndefined, exampleRoot)"
proof -
  have child: "\<not> isParentDocument exampleChild"
    by (simp add: model_defs example_defs)
  have root: "isParentDocument exampleRoot"
    by (simp add: model_defs example_defs)
  have wrong: "sender ((cropRequest None)\<lparr>sender := Some ''asbplayer-video-tab''\<rparr>)
        \<noteq> Some ''asbplayer-extension-to-video''"
    by (simp add: cropRequest_def)
  show ?thesis
    using child root wrong
      messageListener_gate [of exampleChild "cropRequest None" exampleEnv]
      messageListener_gate [of exampleRoot "(cropRequest None)\<lparr>sender := Some ''asbplayer-video-tab''\<rparr>" exampleEnv]
    by blast
qed

lemma exampleRoot_facts:
  "isParentDocument exampleRoot"
  "lookupIframe exampleRoot ''frame-1'' = Some exampleFrame"
  "lookupIframe exampleRoot ''frame-9'' = None"
  "deref (heap exampleRoot) 0 = Some \<lparr>left = 10, top_px = 20, width = 200, height = 100\<rparr>"
  "calls exampleRoot = [BindingBind 0]"
  "heap exampleRoot = [\<lparr>left = 10, top_px = 20, width = 200, height = 100\<rparr>]"
  "sentResponses exampleRoot = []"
  by (simp_all add: model_defs example_defs)

lemma cropRequest_facts:
  "sender (cropRequest fid) = Some ''asbplayer-extension-to-video''"
  "command (message (cropRequest fid)) = ''crop-and-resize''"
  "frameId (message (cropRequest fid)) = fid"
  "rect (message (cropRequest fid)) = 0"
  "maxWidth (message (cropRequest fid)) = 1280"
  "maxHeight (message (cropRequest fid)) = 720"
  "dataUrl (message (cropRequest fid)) = ''data:image/png;base64,AAAA''"
  "(cropRequest fid)\<lparr>message := (message (cropRequest fid))\<lparr>frameId := None\<rparr>\<rparr> = cropRequest None"
  by (simp_all add: cropRequest_def)

text \<open>
  Claim C2 on the root document: the rect \<open>(10, 20, 200, 100)\<close> is passed as it is without
  a \<open>frameId\<close>, and as \<open>(110, 70, 200, 100)\<close> for the iframe at \<open>(100, 50)\<close>.
\<close>

theorem crop_and_resize_rect_witness:
  "isParentDocument exampleRoot
   \<and> sender (cropRequest None) = Some ''asbplayer-extension-to-video''
   \<and> command (message (cropRequest None)) = ''crop-and-resize''
   \<and> frameId (message (cropRequest None)) = None
   \<and> fst (messageListener exampleEnv (cropRequest None) exampleRoot) = ReturnsTrue
   \<and> calls (snd (messageListener exampleEnv (cropRequest None) exampleRoot))
        = [BindingBind 0, CropAndResize 1280 720 0 ''data:image/png;base64,AAAA'']
   \<and> heap (snd (messageListener exampleEnv (cropRequest None) exampleRoot))
        = [\<lparr>left = 10, top_px = 20, width = 200, height = 100\<rparr>]
   \<and> frameId (message (cropRequest (Some ''frame-1''))) = Some ''frame-1''
   \<and> lookupIframe exampleRoot ''frame-1'' = Some exampleFrame
   \<and> boundingClientRect exampleFrame = \<lparr>left = 100, top_px = 50, width = 640, height = 360\<rparr>
   \<and> deref (heap exampleRoot) (rect (message (cropRequest (Some ''frame-1''))))
        = Some \<lparr>left = 10, top_px = 20, width = 200, height = 100\<rparr>
   \<and> (\<exists>a. calls (snd (messageListener exampleEnv (cropRequest (Some ''frame-1'')) exampleRoot))
               = [BindingBind 0, CropAndResize 1280 720 a ''data:image/png;base64,AAAA'']
           \<and> deref (heap (snd (messageListener exampleEnv (cropRequest (Some ''frame-1'')) exampleRoot))) a
               = Some \<lparr>left = 110, top_px = 70, width = 200, height = 100\<rparr>)"
proof -
  note plain = crop_and_resize_rect [of exampleRoot "cropRequest None" exampleEnv,
      OF exampleRoot_facts(1) cropRequest_facts(1) cropRequest_facts(2)]
  note framed = crop_and_resize_rect [of exampleRoot "cropRequest (Some ''frame-1'')" exampleEnv,
      OF exampleRoot_facts(1) cropRequest_facts(1) cropRequest_facts(2)]
  from plain have a: "fst (messageListener exampleEnv (cropRequest None) exampleRoot) = ReturnsTrue
     \<and> calls (snd (messageListener exampleEnv (cropRequest None) exampleRoot))
        = [BindingBind 0, CropAndResize 1280 720 0 ''data:image/png;base64,AAAA'']
     \<and> heap (snd (messageListener exampleEnv (cropRequest None) exampleRoot))
        = [\<lparr>left = 10, top_px = 20, width = 200, height = 100\<rparr>]"
    by (simp add: cropRequest_facts exampleRoot_facts)
  from framed have "frameId (message (cropRequest (Some ''frame-1''))) = Some ''frame-1'' \<and>
        lookupIframe exampleRoot ''frame-1'' = Some exampleFrame \<and>
        deref (heap exampleRoot) (rect (message (cropRequest (Some ''frame-1''))))
          = Some \<lparr>left = 10, top_px = 20, width = 200, height = 100\<rparr> \<longrightarrow>
     (\<exists>a. calls (snd (messageListener exampleEnv (cropRequest (Some ''frame-1'')) exampleRoot)) =
                    calls exampleRoot @ [CropAndResize (maxWidth (message (cropRequest (Some ''frame-1''))))
                       (maxHeight (message (cropRequest (Some ''frame-1''))))
                                 a (dataUrl (message (cropRequest (Some ''frame-1''))))] \<and>
                 deref (heap (snd (messageListener exampleEnv (cropRequest (Some ''frame-1'')) exampleRoot))) a =
                    Some \<lparr>left = left \<lparr>left = 10, top_px = 20, width = 200, height = 100\<rparr> + left (boundingClientRect exampleFrame),
                          top_px = top_px \<lparr>left = 10, top_px = 20, width = 200, height = 100\<rparr> + top_px (boundingClientRect exampleFrame),
                          width = width \<lparr>left = 10, top_px = 20, width = 200, height = (100::int)\<rparr>,
                          height = height \<lparr>left = 10, top_px = 20, width = 200, height = (100::int)\<rparr>\<rparr>)"
    by blast
  then have b: "\<exists>a. calls (snd (messageListener exampleEnv (cropRequest (Some ''frame-1'')) exampleRoot))
               = [BindingBind 0, CropAndResize 1280 720 a ''data:image/png;base64,AAAA'']
           \<and> deref (heap (snd (messageListener exampleEnv (cropRequest (Some ''frame-1'')) exampleRoot))) a
               = Some \<lparr>left = 110, top_px = 70, width = 200, height = 100\<rparr>"
    by (simp add: cropRequest_facts exampleRoot_facts exampleFrame_def deref_def)
  have c: "boundingClientRect exampleFrame = \<lparr>left = 100, top_px = 50, width = 640, height = 360\<rparr>"
    by (simp add: exampleFrame_def)
  from a b c show ?thesis
    by (simp add: cropRequest_facts exampleRoot_facts deref_def)
qed

text \<open>
  Claim C4 on the root document, with a \<open>frameId\<close> that no frame has announced.
\<close>

theorem unregistered_frameId_degrades_witness:
  "isParentDocument exampleRoot
   \<and> frameId (message (cropRequest (Some ''frame-9''))) = Some ''frame-9''
   \<and> lookupIframe exampleRoot ''frame-9'' = None
   \<and> messageListener exampleEnv (cropRequest (Some ''frame-9'')) exampleRoot
        = messageListener exampleEnv (cropRequest None) exampleRoot
   \<and> fst (messageListener exampleEnv (cropRequest (Some ''frame-9'')) exampleRoot) = ReturnsTrue
   \<and> calls (snd (messageListener exampleEnv (cropRequest (Some ''frame-9'')) exampleRoot))
        = [BindingBind 0, CropAndResize 1280 720 0 ''data:image/png;base64,AAAA'']
   \<and> sentResponses (snd (messageListener exampleEnv (cropRequest (Some ''frame-9'')) exampleRoot))
        = [''data:image/png;base64,AAAA'']"
proof -
  note t = unregistered_frameId_degrades [of exampleRoot "cropRequest (Some ''frame-9'')" "''frame-9''" exampleEnv,
      OF exampleRoot_facts(1) cropRequest_facts(1) cropRequest_facts(2) cropRequest_facts(3) exampleRoot_facts(3)]
  have a: "messageListener exampleEnv (cropRequest (Some ''frame-9'')) exampleRoot
        = messageListener exampleEnv (cropRequest None) exampleRoot"
    using t [THEN conjunct1] by (simp only: cropRequest_facts(8))
  have b: "fst (messageListener exampleEnv (cropRequest (Some ''frame-9'')) exampleRoot) = ReturnsTrue"
    using t [THEN conjunct2, THEN conjunct1] .
  have c: "calls (snd (messageListener exampleEnv (cropRequest (Some ''frame-9'')) exampleRoot))
        = [BindingBind 0, CropAndResize 1280 720 0 ''data:image/png;base64,AAAA'']"
    using t [THEN conjunct2, THEN conjunct2, THEN conjunct1]
    by (simp add: cropRequest_facts exampleRoot_facts)
  have d: "sentResponses (snd (messageListener exampleEnv (cropRequest (Some ''frame-9'')) exampleRoot))
        = [''data:image/png;base64,AAAA'']"
    using t [THEN conjunct2, THEN conjunct2, THEN conjunct2, THEN conjunct2]
    by (simp add: cropRequest_facts exampleRoot_facts exampleEnv_def)
  from a b c d exampleRoot_facts(1) exampleRoot_facts(3) cropRequest_facts(3) [of "Some ''frame-9''"]
  show ?thesis by blast
qed

text \<open>
  Claim C9 on the root document, with a translation.
\<close>

theorem messageListener_keeps_rect_witness:
  "deref (heap exampleRoot) (rect (message (cropRequest (Some ''frame-1''))))
     = Some \<lparr>left = 10, top_px = 20, width = 200, height = 100\<rparr>
   \<and> deref (heap (snd (messageListener exampleEnv (cropRequest (Some ''frame-1'')) exampleRoot)))
        (rect (message (cropRequest (Some ''frame-1''))))
     = Some \<lparr>left = 10, top_px = 20, width = 200, height = 100\<rparr>
   \<and> take 1 (heap (snd (messageListener exampleEnv (cropRequest (Some ''frame-1'')) exampleRoot)))
     = [\<lparr>left = 10, top_px = 20, width = 200, height = 100\<rparr>]"
  using messageListener_keeps_rect [of exampleEnv "cropRequest (Some ''frame-1'')" exampleRoot]
  by (simp add: cropRequest_facts exampleRoot_facts deref_def)

text \<open>
  Claim C5 on a child document that tracks two videos: a tick on a document without the
  first one unbinds and drops it and keeps the second, the unload handler unbinds both
  when it runs instead, and after tick and unload each has been unbound once.
\<close>

theorem unbind_exactly_once_witness:
  "bindings (run (bind False None ''frame-1'' [movie] :: (int, string) page_context) [Tick [movie, clip]]) = [\<lparr>video = 0, syncAvailable = False, bindingFrameId = Some ''frame-1'', oid = 0\<rparr>, \<lparr>video = 1, syncAvailable = False, bindingFrameId = Some ''frame-1'', oid = 1\<rparr>]
   \<and> count_list (calls (run (bind False None ''frame-1'' [movie] :: (int, string) page_context) [Tick [movie, clip]])) (BindingUnbind 0) = 0
   \<and> count_list (calls (run (bind False None ''frame-1'' [movie] :: (int, string) page_context) [Tick [movie, clip]])) (BindingUnbind 1) = 0
   \<and> bindings (bindToVideoElements [clip, blank] (run (bind False None ''frame-1'' [movie] :: (int, string) page_context) [Tick [movie, clip]])) = [\<lparr>video = 1, syncAvailable = False, bindingFrameId = Some ''frame-1'', oid = 1\<rparr>]
   \<and> count_list (calls (bindToVideoElements [clip, blank] (run (bind False None ''frame-1'' [movie] :: (int, string) page_context) [Tick [movie, clip]]))) (BindingUnbind 0) = 1
   \<and> count_list (calls (bindToVideoElements [clip, blank] (run (bind False None ''frame-1'' [movie] :: (int, string) page_context) [Tick [movie, clip]]))) (BindingUnbind 1) = 0
   \<and> bindings (beforeunload (run (bind False None ''frame-1'' [movie] :: (int, string) page_context) [Tick [movie, clip]])) = []
   \<and> count_list (calls (beforeunload (run (bind False None ''frame-1'' [movie] :: (int, string) page_context) [Tick [movie, clip]]))) (BindingUnbind 0) = 1
   \<and> count_list (calls (beforeunload (run (bind False None ''frame-1'' [movie] :: (int, string) page_context) [Tick [movie, clip]]))) (BindingUnbind 1) = 1
   \<and> BeforeUnload \<in> set [Tick [movie, clip], Tick [clip, blank], BeforeUnload :: (int, string) page_event]
   \<and> BindingBind 0 \<in> set (calls (run (bind False None ''frame-1'' [movie] :: (int, string) page_context)
        [Tick [movie, clip], Tick [clip, blank], BeforeUnload]))
   \<and> count_list (calls (run (bind False None ''frame-1'' [movie] :: (int, string) page_context)
        [Tick [movie, clip], Tick [clip, blank], BeforeUnload])) (BindingUnbind 0) = 1
   \<and> BindingBind 1 \<in> set (calls (run (bind False None ''frame-1'' [movie] :: (int, string) page_context)
        [Tick [movie, clip], Tick [clip, blank], BeforeUnload]))
   \<and> count_list (calls (run (bind False None ''frame-1'' [movie] :: (int, string) page_context)
        [Tick [movie, clip], Tick [clip, blank], BeforeUnload])) (BindingUnbind 1) = 1"
proof -
  let ?c = "(run (bind False None ''frame-1'' [movie] :: (int, string) page_context) [Tick [movie, clip]])"
  let ?b0 = "\<lparr>video = 0, syncAvailable = False, bindingFrameId = Some ''frame-1'', oid = 0\<rparr>"
  let ?b1 = "\<lparr>video = 1, syncAvailable = False, bindingFrameId = Some ''frame-1'', oid = 1\<rparr>"
  note tick = unbind_exactly_once [where isParent = False and pg = None and fid = "''frame-1''"
      and ?vs0.0 = "[movie]" and vs = "[clip, blank]"
      and events = "[Tick [movie, clip]] :: (int, string) page_event list"]
  note unload = unbind_exactly_once [where isParent = False and pg = None and fid = "''frame-1''"
      and ?vs0.0 = "[movie]" and vs = "[clip, blank]"
      and events = "[Tick [movie, clip], Tick [clip, blank], BeforeUnload] :: (int, string) page_event list"]
  have bs: "bindings ?c = [?b0, ?b1]"
    by (simp add: model_defs example_defs)
  have kept: "bindings (bindToVideoElements [clip, blank] ?c) = [?b1]"
    by (simp add: model_defs example_defs)
  have m0: "?b0 \<in> set (bindings ?c)" and m1: "?b1 \<in> set (bindings ?c)"
    unfolding bs by simp_all
  have gone: "\<not> (\<exists>v\<in>set [clip, blank]. node v = video ?b0 \<and> hasValidVideoSource v)"
    by (simp add: example_defs hasValidVideoSource_def)
  have there: "\<exists>v\<in>set [clip, blank]. node v = video ?b1 \<and> hasValidVideoSource v"
    by (simp add: example_defs hasValidVideoSource_def)
  note t0 = tick [THEN conjunct1, THEN bspec, OF m0]
  note t1 = tick [THEN conjunct1, THEN bspec, OF m1]
  from t0 have a0: "count_list (calls ?c) (BindingUnbind (oid ?b0)) = 0" by blast
  from t1 have a1: "count_list (calls ?c) (BindingUnbind (oid ?b1)) = 0" by blast
  from t0 gone have d0: "count_list (calls (bindToVideoElements [clip, blank] ?c)) (BindingUnbind (oid ?b0)) = 1"
    by blast
  from t1 there have d1: "count_list (calls (bindToVideoElements [clip, blank] ?c)) (BindingUnbind (oid ?b1)) = 0"
    by blast
  from t0 have e: "bindings (beforeunload ?c) = []" by blast
  from t0 have u0: "count_list (calls (beforeunload ?c)) (BindingUnbind (oid ?b0)) = 1" by blast
  from t1 have u1: "count_list (calls (beforeunload ?c)) (BindingUnbind (oid ?b1)) = 1" by blast
  have ev: "BeforeUnload \<in> set [Tick [movie, clip], Tick [clip, blank], BeforeUnload :: (int, string) page_event]"
    by simp
  have cs: "calls (run (bind False None ''frame-1'' [movie] :: (int, string) page_context)
        [Tick [movie, clip], Tick [clip, blank], BeforeUnload]) = [BindingBind 0, BindingBind 1, BindingUnbind 0, BindingUnbind 1]"
    by (simp add: model_defs example_defs)
  have b0: "BindingBind 0 \<in> set (calls (run (bind False None ''frame-1'' [movie] :: (int, string) page_context)
        [Tick [movie, clip], Tick [clip, blank], BeforeUnload]))"
    and b1: "BindingBind 1 \<in> set (calls (run (bind False None ''frame-1'' [movie] :: (int, string) page_context)
        [Tick [movie, clip], Tick [clip, blank], BeforeUnload]))"
    unfolding cs by simp_all
  note f0 = unload [THEN conjunct2, THEN spec, of 0, THEN mp, OF b0, THEN conjunct2, THEN mp, OF ev]
  note f1 = unload [THEN conjunct2, THEN spec, of 1, THEN mp, OF b1, THEN conjunct2, THEN mp, OF ev]
  have o: "oid ?b0 = 0" "oid ?b1 = 1" by simp_all
  show ?thesis
    using bs kept a0 a1 d0 d1 e u0 u1 ev b0 b1 f0 f1 unfolding o by blast
qed

text \<open>
  Claim C7 on a child document whose only valid video loses its source and then gets a
  new valid video.
\<close>

theorem child_broadcasts_iff_bound_witness:
  "bindings (run (bind False None ''frame-1'' [movie] :: (int, string) page_context) [Tick [blank]]) = []
   \<and> (\<exists>fb. frameInfoBroadcaster (run (bind False None ''frame-1'' [movie] :: (int, string) page_context) [Tick [blank]]) = Some fb
         \<and> \<not> broadcasting fb)
   \<and> bindings (run (bind False None ''frame-1'' [movie] :: (int, string) page_context) [Tick [blank], Tick [clip]]) \<noteq> []
   \<and> (\<exists>fb. frameInfoBroadcaster (run (bind False None ''frame-1'' [movie] :: (int, string) page_context) [Tick [blank], Tick [clip]]) = Some fb
         \<and> broadcasting fb)"
proof -
  have a: "bindings (run (bind False None ''frame-1'' [movie] :: (int, string) page_context) [Tick [blank]]) = []"
    by (simp add: model_defs example_defs)
  have b: "bindings (run (bind False None ''frame-1'' [movie] :: (int, string) page_context) [Tick [blank], Tick [clip]]) \<noteq> []"
    by (simp add: model_defs example_defs)
  from a b
    child_broadcasts_iff_bound [of None "''frame-1''" "[movie]" "[Tick [blank]] :: (int, string) page_event list"]
    child_broadcasts_iff_bound [of None "''frame-1''" "[movie]" "[Tick [blank], Tick [clip]] :: (int, string) page_event list"]
  show ?thesis by auto
qed

text \<open>
  Claim C6 on a root document where two settings updates are pending at once.
\<close>

theorem one_toggle_handler_witness:
  "keyHandlers (run (bind True None [] [movie] :: (int, string) page_context)
      [KeyBindSetRead ''Alt+S'', KeyPressed, Message exampleEnv settingsUpdated,
       Message exampleEnv settingsUpdated, KeyBindSetRead ''Alt+T'', KeyPressed,
       KeyBindSetRead ''Alt+U'', KeyPressed]) = [(2, ''Alt+U'')]
   \<and> toggleMonitor (calls (run (bind True None [] [movie] :: (int, string) page_context)
      [KeyBindSetRead ''Alt+S'', KeyPressed, Message exampleEnv settingsUpdated,
       Message exampleEnv settingsUpdated, KeyBindSetRead ''Alt+T'', KeyPressed,
       KeyBindSetRead ''Alt+U'', KeyPressed])) = Installed (Some 2)"
proof -
  have a: "keyHandlers (run (bind True None [] [movie] :: (int, string) page_context)
      [KeyBindSetRead ''Alt+S'', KeyPressed, Message exampleEnv settingsUpdated,
       Message exampleEnv settingsUpdated, KeyBindSetRead ''Alt+T'', KeyPressed,
       KeyBindSetRead ''Alt+U'', KeyPressed]) = [(2, ''Alt+U'')]"
    by (simp add: model_defs example_defs settingsUpdated_def)
  from a one_toggle_handler [of True None "[]" "[movie]"
      "[KeyBindSetRead ''Alt+S'', KeyPressed, Message exampleEnv settingsUpdated,
       Message exampleEnv settingsUpdated, KeyBindSetRead ''Alt+T'', KeyPressed,
       KeyBindSetRead ''Alt+U'', KeyPressed] :: (int, string) page_event list"]
  show ?thesis by (simp add: activeHandler_def)
qed

text \<open>
  Claim C8, at an input where the code departs from it. The listener returns normally,
  and a rejected clipboard write is caught and logged (\<open>copy_chain_console\<close>); but when
  the fetch of the data URL is rejected, the rejection passes both \<open>then\<close> callbacks, the
  only \<open>catch\<close> sits on the clipboard write inside the second callback, and the chain
  ends rejected with no handler: an unhandled rejection, and nothing on the console.
  The same happens when \<open>response.blob()\<close> is rejected and when the clipboard call throws
  before it returns a promise (\<open>copy_chain_unhandled\<close> gives all cases).
\<close>

theorem copy_fetch_rejection_unhandled:
  "fst (messageListener rejectingEnv copyRequest exampleRoot) = ReturnsUndefined
   \<and> unhandledRejections (snd (messageListener rejectingEnv copyRequest exampleRoot))
        = [''TypeError: Failed to fetch'']
   \<and> console (snd (messageListener rejectingEnv copyRequest exampleRoot)) = []"
  by (simp add: model_defs example_defs rejectingEnv_def copyRequest_def)

lemma copy_clipboard_throw_unhandled:
  "fst (messageListener insecureEnv copyRequest exampleRoot) = ReturnsUndefined
   \<and> unhandledRejections (snd (messageListener insecureEnv copyRequest exampleRoot))
        = [''TypeError: navigator.clipboard is undefined'']
   \<and> console (snd (messageListener insecureEnv copyRequest exampleRoot)) = []"
  by (simp add: model_defs example_defs insecureEnv_def copyRequest_def)

lemma copy_clipboard_rejection_logged:
  "unhandledRejections (snd (messageListener
        (exampleEnv\<lparr>clipboardWrite := (\<lambda>items. Inr (Rejected ''NotAllowedError''))\<rparr>)
        copyRequest exampleRoot)) = []
   \<and> console (snd (messageListener
        (exampleEnv\<lparr>clipboardWrite := (\<lambda>items. Inr (Rejected ''NotAllowedError''))\<rparr>)
        copyRequest exampleRoot)) = [''NotAllowedError'']"
  by (simp add: model_defs example_defs copyRequest_def)

end
